theory Spec2Isabelle
  imports Complex_Main "HOL-Library.AList" "HOL-Library.Char_ord" "HOL-Library.List_Lexorder"
begin

section \<open>GRIB utilities: the data model\<close>

text \<open>
  The module \<^verbatim>\<open>grib_utils.py\<close> is a thin layer over the \<^verbatim>\<open>pygrib\<close> decoder. A decoded
  message is opaque to the module; it is used through four accessors only: \<^verbatim>\<open>grb.keys()\<close>,
  \<^verbatim>\<open>grb[key]\<close>, \<^verbatim>\<open>grb.values\<close> and \<^verbatim>\<open>grb.latlons()\<close>. The record below holds what these
  accessors answer.

  An attribute value is an integer, a string or a numeric array (of more than one element);
  these are the kinds of value the decoder hands out for integer, string and array keys.
  Scalar floating-point attributes are left out of the model. A grid entry is a finite
  floating-point number, modelled by the real number it denotes: the module only compares
  and overwrites grid entries, and both operations are exact.
\<close>

datatype pyval = IntV int | StrV string | ArrV

datatype error =
    IOError string
  | RuntimeError string
  | ValueError
  | TypeError
  | NameError string
  | IndexError
  | OverflowError

type_synonym grid = "real list list"

record message =
  msg_keys :: "string list"
  msg_items :: "(string \<times> pyval) list"
  msg_values :: grid
  msg_latlons :: "grid \<times> grid"

text \<open>
  \<^verbatim>\<open>grb[key]\<close>: the decoder raises (a \<^verbatim>\<open>RuntimeError\<close>) for a key it cannot read. A key
  can be listed by \<^verbatim>\<open>grb.keys()\<close> and still be unreadable; such a key is in \<open>msg_keys\<close>
  and not in \<open>msg_items\<close>.
\<close>

definition getitem :: "message \<Rightarrow> string \<Rightarrow> error + pyval" where
  "getitem grb key =
     (case map_of (msg_items grb) key of
        None \<Rightarrow> Inl (RuntimeError key)
      | Some v \<Rightarrow> Inr v)"

text \<open>
  \<^verbatim>\<open>open_grib\<close> and \<^verbatim>\<open>filter_grib_layers\<close> return either a list of messages or one bare
  message; \<^verbatim>\<open>grib_message_to_arrays_raster\<close> accepts both shapes.
\<close>

datatype gribs = Msg message | Lst "message list"

subsection \<open>Rendering integers as Python does\<close>

definition digit_char :: "nat \<Rightarrow> char" where
  "digit_char d = ''0123456789'' ! d"

fun show_nat :: "nat \<Rightarrow> string" where
  "show_nat n = (if n < 10 then [digit_char n] else show_nat (n div 10) @ [digit_char (n mod 10)])"

declare show_nat.simps [simp del]

text \<open>\<^verbatim>\<open>str(i)\<close> and \<^verbatim>\<open>"{}".format(i)\<close> for an integer \<open>i\<close>.\<close>

definition show_int :: "int \<Rightarrow> string" where
  "show_int i = (if i < 0 then CHR ''-'' # show_nat (nat (- i)) else show_nat (nat i))"

section \<open>Filter engine: \<^verbatim>\<open>filter_grib_layers\<close>\<close>

text \<open>
  The keyword arguments \<^verbatim>\<open>**grib_layer_filters\<close> are a dictionary from attribute name to
  a filter value; it is modelled by an association list in the dictionary's iteration
  order. A filter value is a single value, a Python list or a Python set of values.
\<close>

datatype fval = Val pyval | ListOf "pyval list" | SetOf "pyval list"

text \<open>
  \<^verbatim>\<open>a == b\<close> used as a condition. Comparing an array yields an array of booleans, whose
  truth value is ambiguous: Python raises \<^verbatim>\<open>ValueError\<close>.
\<close>

fun py_eq :: "pyval \<Rightarrow> pyval \<Rightarrow> error + bool" where
  "py_eq ArrV _ = Inl ValueError"
| "py_eq _ ArrV = Inl ValueError"
| "py_eq a b = Inr (a = b)"

text \<open>\<^verbatim>\<open>x in vs\<close> for a list \<open>vs\<close>: the elements are compared with \<^verbatim>\<open>==\<close> from the left.\<close>

fun py_in :: "pyval \<Rightarrow> pyval list \<Rightarrow> error + bool" where
  "py_in x [] = Inr False"
| "py_in x (e # es) =
     (case py_eq x e of
        Inl err \<Rightarrow> Inl err
      | Inr True \<Rightarrow> Inr True
      | Inr False \<Rightarrow> py_in x es)"

text \<open>
  The nested function \<^verbatim>\<open>passes_filters\<close>. Only \<^verbatim>\<open>isinstance(..., list)\<close> selects the
  membership test; every other filter value, a set included, is compared with \<^verbatim>\<open>!=\<close>.
  An integer or a string is never equal to a set. The lookup \<^verbatim>\<open>grb[filter]\<close> is not
  guarded: when it raises, the exception leaves \<^verbatim>\<open>passes_filters\<close>.
\<close>

fun passes_filters :: "(string \<times> fval) list \<Rightarrow> message \<Rightarrow> error + bool" where
  "passes_filters [] grb = Inr True"
| "passes_filters ((k, ListOf vs) # fs) grb =
     (case getitem grb k of
        Inl e \<Rightarrow> Inl e
      | Inr x \<Rightarrow>
          (case py_in x vs of
             Inl e \<Rightarrow> Inl e
           | Inr b \<Rightarrow> if \<not> b then Inr False else passes_filters fs grb))"
| "passes_filters ((k, Val v) # fs) grb =
     (case getitem grb k of
        Inl e \<Rightarrow> Inl e
      | Inr x \<Rightarrow>
          (case py_eq x v of
             Inl e \<Rightarrow> Inl e
           | Inr b \<Rightarrow> if \<not> b then Inr False else passes_filters fs grb))"
| "passes_filters ((k, SetOf vs) # fs) grb =
     (case getitem grb k of
        Inl e \<Rightarrow> Inl e
      | Inr ArrV \<Rightarrow> Inl ValueError
      | Inr x \<Rightarrow> Inr False)"

text \<open>The list comprehension \<^verbatim>\<open>[i for i in grbs if passes_filters(i)]\<close>.\<close>

fun ok_list :: "(string \<times> fval) list \<Rightarrow> message list \<Rightarrow> error + message list" where
  "ok_list fs [] = Inr []"
| "ok_list fs (grb # grbs) =
     (case passes_filters fs grb of
        Inl e \<Rightarrow> Inl e
      | Inr b \<Rightarrow>
          (case ok_list fs grbs of
             Inl e \<Rightarrow> Inl e
           | Inr ok \<Rightarrow> Inr (if b then grb # ok else ok)))"

text \<open>
  \<^verbatim>\<open>filter_grib_layers\<close> returns the line it prints together with its result. A result
  list of exactly one message is replaced by that message.
\<close>

definition filter_grib_layers ::
  "message list \<Rightarrow> (string \<times> fval) list \<Rightarrow> error + (string \<times> gribs)" where
  "filter_grib_layers grbs grib_layer_filters =
     (case ok_list grib_layer_filters grbs of
        Inl e \<Rightarrow> Inl e
      | Inr ok \<Rightarrow>
          Inr (''After filterings still '' @ show_nat (length ok) @ '' grib messages left.'',
               (case ok of [grb] \<Rightarrow> Msg grb | _ \<Rightarrow> Lst ok)))"

section \<open>Raster extractor: \<^verbatim>\<open>grib_message_to_arrays_raster\<close>\<close>

text \<open>
  Lines 173 to 178: a list of exactly one message is unwrapped; any other list, the empty
  one included, raises \<^verbatim>\<open>IOError\<close> with the length of the list in its text.
\<close>

definition one_layer :: "gribs \<Rightarrow> error + message" where
  "one_layer grb =
     (case grb of
        Msg g \<Rightarrow> Inr g
      | Lst gs \<Rightarrow>
          (if length gs = 1 then Inr (gs ! 0)
           else Inl (IOError
             (''You can only pass a one-layered grib list or a grib message. '' @
              ''You passed a grib with '' @ show_nat (length gs) @ '' layers.''))))"

text \<open>
  \<^verbatim>\<open>nodata_buffer\<close> is a number or \<^verbatim>\<open>None\<close>; \<^verbatim>\<open>if nodata_buffer:\<close> holds for a number
  other than zero. \<^verbatim>\<open>values[values<nodata_buffer]=nodata\<close> overwrites every entry that is
  less than the buffer; the comparison is the signed one.
\<close>

definition truthy :: "real option \<Rightarrow> bool" where
  "truthy b = (case b of None \<Rightarrow> False | Some t \<Rightarrow> t \<noteq> 0)"

definition mask_assign :: "real \<Rightarrow> real \<Rightarrow> grid \<Rightarrow> grid" where
  "mask_assign nodata_buffer nodata vals =
     map (map (\<lambda>v. if v < nodata_buffer then nodata else v)) vals"

definition grib_message_to_arrays_raster ::
  "gribs \<Rightarrow> real option \<Rightarrow> real \<Rightarrow> error + (grid \<times> grid \<times> grid)" where
  "grib_message_to_arrays_raster grb nodata_buffer nodata =
     (case one_layer grb of
        Inl e \<Rightarrow> Inl e
      | Inr g \<Rightarrow>
          (let vals = msg_values g;
               vals' = (if truthy nodata_buffer then mask_assign (the nodata_buffer) nodata vals
                        else vals);
               (lats, lons) = msg_latlons g
           in Inr (vals', lats, lons)))"

section \<open>Message store access: \<^verbatim>\<open>open_grib\<close>\<close>

text \<open>
  The argument of \<^verbatim>\<open>open_grib\<close> and of \<^verbatim>\<open>print_grib_content_report\<close> is a string or
  something else. \<^verbatim>\<open>pygrib.open(path).select()\<close> belongs to the decoder; it is a parameter
  \<open>decode\<close> of the model, which answers a list of messages or raises.
\<close>

datatype source = Path string | Gribs gribs

text \<open>\<^verbatim>\<open>grb[key] = v\<close>.\<close>

definition setitem :: "message \<Rightarrow> string \<Rightarrow> pyval \<Rightarrow> message" where
  "setitem grb key v = grb\<lparr>msg_items := AList.update key v (msg_items grb)\<rparr>"

definition open_grib ::
  "(string \<Rightarrow> error + message list) \<Rightarrow> source \<Rightarrow> int \<Rightarrow> error + gribs" where
  "open_grib decode grbs timestep_interval_mins =
     (case grbs of
        Gribs _ \<Rightarrow> Inl (IOError ''Grbs argument has to be a path to the grib file!'')
      | Path p \<Rightarrow>
          (case decode p of
             Inl e \<Rightarrow> Inl e
           | Inr ms \<Rightarrow>
               (let ms' = map (\<lambda>grb. if timestep_interval_mins < 60
                                      then setitem grb ''stepUnits'' (IntV 0) else grb) ms
                in Inr (case ms' of [grb] \<Rightarrow> Msg grb | _ \<Rightarrow> Lst ms'))))"

section \<open>Display limits: \<^verbatim>\<open>print_full_df\<close>\<close>

text \<open>
  The two process-wide options \<^verbatim>\<open>display.max_rows\<close> and \<^verbatim>\<open>display.max_columns\<close> of the
  table library. \<^verbatim>\<open>set_option\<close> stores a value; \<^verbatim>\<open>reset_option\<close> stores the library's
  default, which is a parameter \<open>dflt\<close> of the model. The outcome of \<^verbatim>\<open>print(x)\<close> is a
  parameter as well: \<open>None\<close> when it returns, \<open>Some e\<close> when it raises \<open>e\<close>. The four
  statements are in sequence, with no handler: when \<^verbatim>\<open>print\<close> raises, the two resets
  do not run.
\<close>

record display =
  max_rows :: "nat option"
  max_columns :: "nat option"

record ('r, 'c) frame =
  f_index :: "'r list"
  f_columns :: "'c list"
  f_rows :: "pyval option list list"

definition print_full_df ::
  "display \<Rightarrow> error option \<Rightarrow> ('r, 'c) frame \<Rightarrow> display \<Rightarrow> (error + unit) \<times> display" where
  "print_full_df dflt print_outcome x st =
     (let st1 = st\<lparr>max_rows := Some (length (f_index x))\<rparr>;
          st2 = st1\<lparr>max_columns := Some (length (f_columns x))\<rparr>
      in case print_outcome of
           Some e \<Rightarrow> (Inl e, st2)
         | None \<Rightarrow>
             (let st3 = st2\<lparr>max_rows := max_rows dflt\<rparr>;
                  st4 = st3\<lparr>max_columns := max_columns dflt\<rparr>
              in (Inr (), st4)))"

section \<open>Temporal resolver\<close>

subsection \<open>Strings: \<^verbatim>\<open>str\<close>, \<^verbatim>\<open>zfill\<close>, \<^verbatim>\<open>int\<close>\<close>

text \<open>
  \<^verbatim>\<open>str(v)\<close>. The text of an array starts with a bracket; the temporal resolver hands the
  text to a parser that reads digits only, so nothing but that first character matters and
  the rest of an array's text is not modelled.
\<close>

fun py_str :: "pyval \<Rightarrow> string" where
  "py_str (IntV i) = show_int i"
| "py_str (StrV s) = s"
| "py_str ArrV = ''[...]''"

text \<open>\<^verbatim>\<open>s.zfill(width)\<close>: zeros go after a leading sign.\<close>

definition zfill :: "nat \<Rightarrow> string \<Rightarrow> string" where
  "zfill width s =
     (if length s \<ge> width then s
      else (case s of
              c # r \<Rightarrow>
                (if c = CHR ''+'' \<or> c = CHR ''-''
                 then c # replicate (width - length s) CHR ''0'' @ r
                 else replicate (width - length s) CHR ''0'' @ s)
            | [] \<Rightarrow> replicate width CHR ''0''))"

definition is_digit :: "char \<Rightarrow> bool" where
  "is_digit c = (c \<in> set ''0123456789'')"

definition digit_val :: "char \<Rightarrow> nat" where
  "digit_val c = of_char c - 48"

definition in_range :: "char \<Rightarrow> char \<Rightarrow> char \<Rightarrow> bool" where
  "in_range lo hi c = ((of_char lo :: nat) \<le> of_char c \<and> (of_char c :: nat) \<le> of_char hi)"

text \<open>
  \<^verbatim>\<open>int(v)\<close>. For a string: blanks around the number are dropped, a sign may lead, and the
  digits may be grouped by single underscores. The blanks are the space, the characters
  U+0009 to U+000D, U+0085 and U+00A0; the separators U+001C to U+001F are not among them
  and make the conversion fail. A character of a string is a code point below 256 here. An
  array of more than one element is refused with \<^verbatim>\<open>TypeError\<close>.
\<close>

definition is_space :: "char \<Rightarrow> bool" where
  "is_space c = (c = CHR '' '' \<or> in_range (CHR 0x09) (CHR 0x0D) c \<or> c = CHR 0x85 \<or> c = CHR 0xA0)"

fun digits_value :: "nat \<Rightarrow> bool \<Rightarrow> string \<Rightarrow> nat option" where
  "digits_value acc after_digit [] = (if after_digit then Some acc else None)"
| "digits_value acc after_digit (c # r) =
     (if is_digit c then digits_value (10 * acc + digit_val c) True r
      else if c = CHR ''_'' \<and> after_digit \<and> r \<noteq> [] \<and> is_digit (hd r)
        then digits_value acc False r
      else None)"

definition int_of_string :: "string \<Rightarrow> error + int" where
  "int_of_string s =
     (let t = rev (dropWhile is_space (rev (dropWhile is_space s)));
          (neg, ds) = (case t of
                         c # r \<Rightarrow> if c = CHR ''-'' then (True, r)
                                  else if c = CHR ''+'' then (False, r) else (False, t)
                       | [] \<Rightarrow> (False, t))
      in case digits_value 0 False ds of
           None \<Rightarrow> Inl ValueError
         | Some n \<Rightarrow> Inr (if neg then - int n else int n))"

fun py_int :: "pyval \<Rightarrow> error + int" where
  "py_int (IntV i) = Inr i"
| "py_int (StrV s) = int_of_string s"
| "py_int ArrV = Inl TypeError"

subsection \<open>The calendar of \<^verbatim>\<open>datetime\<close>\<close>

text \<open>
  A \<^verbatim>\<open>datetime\<close> value. Seconds and microseconds are always zero in this module (the
  format has no field for them and only whole minutes are added), so they are left out.
\<close>

record datetime =
  year :: nat
  month :: nat
  day :: nat
  hour :: nat
  minute :: nat

definition is_leap :: "int \<Rightarrow> bool" where
  "is_leap y = (y mod 4 = 0 \<and> (y mod 100 \<noteq> 0 \<or> y mod 400 = 0))"

definition DAYS_IN_MONTH :: "int list" where
  "DAYS_IN_MONTH = [-1, 31, 28, 31, 30, 31, 30, 31, 31, 30, 31, 30, 31]"

definition DAYS_BEFORE_MONTH :: "int list" where
  "DAYS_BEFORE_MONTH = [-1, 0, 31, 59, 90, 120, 151, 181, 212, 243, 273, 304, 334]"

definition days_before_year :: "int \<Rightarrow> int" where
  "days_before_year y = (y - 1) * 365 + (y - 1) div 4 - (y - 1) div 100 + (y - 1) div 400"

definition days_in_month :: "int \<Rightarrow> nat \<Rightarrow> int" where
  "days_in_month y m = (if m = 2 \<and> is_leap y then 29 else DAYS_IN_MONTH ! m)"

definition days_before_month :: "int \<Rightarrow> nat \<Rightarrow> int" where
  "days_before_month y m = DAYS_BEFORE_MONTH ! m + (if m > 2 \<and> is_leap y then 1 else 0)"

definition ymd2ord :: "int \<Rightarrow> nat \<Rightarrow> int \<Rightarrow> int" where
  "ymd2ord y m d = days_before_year y + days_before_month y m + d"

text \<open>
  The inverse, for an ordinal from 1 to 3652059 (the last day of the year 9999). Its last
  step finds month and day from the number \<open>n\<close> of days that precede the day within its
  year: the month is estimated as \<open>(n + 50) div 32\<close>, which is right or one too large.
\<close>

definition month_day :: "bool \<Rightarrow> int \<Rightarrow> nat \<times> int" where
  "month_day leapyear n =
     (let m = nat ((n + 50) div 32);
          preceding = DAYS_BEFORE_MONTH ! m + (if m > 2 \<and> leapyear then 1 else 0)
      in if preceding > n
         then (m - 1,
               n - (preceding - (DAYS_IN_MONTH ! (m - 1) +
                      (if m - 1 = 2 \<and> leapyear then 1 else 0))) + 1)
         else (m, n - preceding + 1))"

definition ord2ymd :: "int \<Rightarrow> int \<times> nat \<times> int" where
  "ord2ymd n0 =
     (let n = n0 - 1;
          n400 = n div 146097; n = n mod 146097;
          n100 = n div 36524; n = n mod 36524;
          n4 = n div 1461; n = n mod 1461;
          n1 = n div 365; n = n mod 365;
          y = n400 * 400 + 1 + n100 * 100 + n4 * 4 + n1
      in if n1 = 4 \<or> n100 = 4 then (y - 1, 12, 31)
         else
           (let leapyear = (n1 = 3 \<and> (n4 \<noteq> 24 \<or> n100 = 3))
            in case month_day leapyear n of (m, d) \<Rightarrow> (y, m, d)))"

subsection \<open>\<^verbatim>\<open>datetime.strptime(s, "%Y%m%d%H%M")\<close>\<close>

text \<open>
  The format is turned into a regular expression, one group per directive:
  \<^verbatim>\<open>%Y\<close> is \<^verbatim>\<open>\d\d\d\d\<close>, \<^verbatim>\<open>%m\<close> is \<^verbatim>\<open>1[0-2]|0[1-9]|[1-9]\<close>,
  \<^verbatim>\<open>%d\<close> is \<^verbatim>\<open>3[0-1]|[1-2]\d|0[1-9]|[1-9]| [1-9]\<close>, \<^verbatim>\<open>%H\<close> is \<^verbatim>\<open>2[0-3]|[0-1]\d|\d\<close> and
  \<^verbatim>\<open>%M\<close> is \<^verbatim>\<open>[0-5]\d|\d\<close>. Each function below lists the ways its group matches a
  prefix of the text, in the order of the alternatives, with the number read and the text
  that is left. The expression is matched at the start of the text, alternatives tried from
  the left with backtracking; the first match is taken, and text left over after it is an
  error. Every failure is a \<^verbatim>\<open>ValueError\<close>.
\<close>

definition two :: "(char \<Rightarrow> bool) \<Rightarrow> (char \<Rightarrow> bool) \<Rightarrow> string \<Rightarrow> (nat \<times> string) list" where
  "two p q s =
     (case s of
        a # b # r \<Rightarrow> if p a \<and> q b then [(10 * digit_val a + digit_val b, r)] else []
      | _ \<Rightarrow> [])"

definition one :: "(char \<Rightarrow> bool) \<Rightarrow> string \<Rightarrow> (nat \<times> string) list" where
  "one p s = (case s of a # r \<Rightarrow> if p a then [(digit_val a, r)] else [] | _ \<Rightarrow> [])"

definition rx_Y :: "string \<Rightarrow> (nat \<times> string) list" where
  "rx_Y s =
     (case s of
        a # b # c # d # r \<Rightarrow>
          if is_digit a \<and> is_digit b \<and> is_digit c \<and> is_digit d
          then [(1000 * digit_val a + 100 * digit_val b + 10 * digit_val c + digit_val d, r)]
          else []
      | _ \<Rightarrow> [])"

definition rx_m :: "string \<Rightarrow> (nat \<times> string) list" where
  "rx_m s =
     two (\<lambda>c. c = CHR ''1'') (in_range CHR ''0'' CHR ''2'') s @
     two (\<lambda>c. c = CHR ''0'') (in_range CHR ''1'' CHR ''9'') s @
     one (in_range CHR ''1'' CHR ''9'') s"

definition rx_d :: "string \<Rightarrow> (nat \<times> string) list" where
  "rx_d s =
     two (\<lambda>c. c = CHR ''3'') (in_range CHR ''0'' CHR ''1'') s @
     two (in_range CHR ''1'' CHR ''2'') is_digit s @
     two (\<lambda>c. c = CHR ''0'') (in_range CHR ''1'' CHR ''9'') s @
     one (in_range CHR ''1'' CHR ''9'') s @
     (case s of a # r \<Rightarrow> if a = CHR '' '' then one (in_range CHR ''1'' CHR ''9'') r else []
              | _ \<Rightarrow> [])"

definition rx_H :: "string \<Rightarrow> (nat \<times> string) list" where
  "rx_H s =
     two (\<lambda>c. c = CHR ''2'') (in_range CHR ''0'' CHR ''3'') s @
     two (in_range CHR ''0'' CHR ''1'') is_digit s @
     one is_digit s"

definition rx_M :: "string \<Rightarrow> (nat \<times> string) list" where
  "rx_M s = two (in_range CHR ''0'' CHR ''5'') is_digit s @ one is_digit s"

definition matches_YmdHM :: "string \<Rightarrow> ((nat \<times> nat \<times> nat \<times> nat \<times> nat) \<times> string) list" where
  "matches_YmdHM s =
     concat (map (\<lambda>(y, r1).
       concat (map (\<lambda>(m, r2).
         concat (map (\<lambda>(d, r3).
           concat (map (\<lambda>(h, r4).
             map (\<lambda>(mi, r5). ((y, m, d, h, mi), r5)) (rx_M r4))
           (rx_H r3)))
         (rx_d r2)))
       (rx_m r1)))
     (rx_Y s))"

definition strptime_YmdHM :: "string \<Rightarrow> error + datetime" where
  "strptime_YmdHM s =
     (case matches_YmdHM s of
        [] \<Rightarrow> Inl ValueError
      | ((y, m, d, h, mi), rest) # _ \<Rightarrow>
          if rest \<noteq> [] then Inl ValueError
          else if 1 \<le> y \<and> int d \<le> days_in_month (int y) m
          then Inr \<lparr>year = y, month = m, day = d, hour = h, minute = mi\<rparr>
          else Inl ValueError)"

subsection \<open>\<^verbatim>\<open>dt + timedelta(minutes=n)\<close>\<close>

text \<open>
  The sum is computed on the day number and the minute of the day; a day number outside
  1 to 3652059 is an \<^verbatim>\<open>OverflowError\<close> (as is a number of minutes too large for a
  \<^verbatim>\<open>timedelta\<close>, which always leads outside that range).
\<close>

definition add_minutes :: "datetime \<Rightarrow> int \<Rightarrow> error + datetime" where
  "add_minutes dt n =
     (let total = (ymd2ord (int (year dt)) (month dt) (int (day dt))) * 1440
                    + int (hour dt) * 60 + int (minute dt) + n;
          days = total div 1440;
          rem = total mod 1440
      in if 0 < days \<and> days \<le> 3652059
         then (case ord2ymd days of
                 (y, m, d) \<Rightarrow>
                   Inr \<lparr>year = nat y, month = m, day = nat d,
                        hour = nat (rem div 60), minute = nat (rem mod 60)\<rparr>)
         else Inl OverflowError)"

subsection \<open>The two resolvers\<close>

definition get_grib_layer_simulation_datetime :: "message \<Rightarrow> error + datetime" where
  "get_grib_layer_simulation_datetime grb =
     (case getitem grb ''dataTime'' of
        Inl e \<Rightarrow> Inl e
      | Inr t \<Rightarrow>
          (let dataTime = zfill 4 (py_str t) in
           case getitem grb ''dataDate'' of
             Inl e \<Rightarrow> Inl e
           | Inr d \<Rightarrow>
               (let dataDate = py_str d in strptime_YmdHM (dataDate @ dataTime))))"

definition get_grib_layer_validity_datetime :: "message \<Rightarrow> error + datetime" where
  "get_grib_layer_validity_datetime grb =
     (case get_grib_layer_simulation_datetime grb of
        Inl e \<Rightarrow> Inl e
      | Inr sim \<Rightarrow>
          (case getitem grb ''endStep'' of
             Inl e \<Rightarrow> Inl e
           | Inr v \<Rightarrow>
               (case py_int v of
                  Inl e \<Rightarrow> Inl e
                | Inr n \<Rightarrow> add_minutes sim n)))"

subsection \<open>Fixed-width decimal fields\<close>

text \<open>
  The digits of a number below 10000 in four places, and of a number below 100 in two
  places. They are used to state what the resolver reads from the text it builds.
\<close>

definition digits4 :: "nat \<Rightarrow> string" where
  "digits4 n = [digit_char (n div 1000 mod 10), digit_char (n div 100 mod 10),
                digit_char (n div 10 mod 10), digit_char (n mod 10)]"

definition digits2 :: "nat \<Rightarrow> string" where
  "digits2 n = [digit_char (n div 10), digit_char (n mod 10)]"

subsection \<open>Minutes on the time line\<close>

text \<open>
  The number of whole minutes from the start of the day before 0001-01-01 to a
  \<^verbatim>\<open>datetime\<close>: its day number (\<^verbatim>\<open>toordinal()\<close>) times 1440, plus the minute of the day.
\<close>

definition minute_number :: "datetime \<Rightarrow> int" where
  "minute_number dt =
     ymd2ord (int (year dt)) (month dt) (int (day dt)) * 1440
       + int (hour dt) * 60 + int (minute dt)"

text \<open>
  The fields that the constructor of \<^verbatim>\<open>datetime\<close> accepts: a year from 1 to 9999, a month
  of the year, a day of that month, an hour below 24 and a minute below 60.
\<close>

definition valid_datetime :: "datetime \<Rightarrow> bool" where
  "valid_datetime dt =
     (1 \<le> year dt \<and> year dt \<le> 9999 \<and> 1 \<le> month dt \<and> month dt \<le> 12
      \<and> 1 \<le> day dt \<and> int (day dt) \<le> days_in_month (int (year dt)) (month dt)
      \<and> hour dt \<le> 23 \<and> minute dt \<le> 59)"

section \<open>Report generator: \<^verbatim>\<open>print_grib_content_report\<close>\<close>

text \<open>
  The table is a data frame of the table library: row labels, column labels and one list
  of cells per row. A cell is \<open>None\<close> for Python's \<^verbatim>\<open>None\<close>. The operations of the
  library that the report uses are modelled here as far as the report needs them; row
  labels are the keys of a message, which are pairwise distinct.
\<close>

text \<open>Lines 31 to 38: a lookup that raises, and an array, both become \<^verbatim>\<open>None\<close>.\<close>

definition cell_of :: "message \<Rightarrow> string \<Rightarrow> pyval option" where
  "cell_of grb feature =
     (case getitem grb feature of
        Inl _ \<Rightarrow> None
      | Inr ArrV \<Rightarrow> None
      | Inr v \<Rightarrow> Some v)"

text \<open>Lines 28 to 39: the cells of one message, along the keys of that message.\<close>

definition column_of :: "message \<Rightarrow> pyval option list" where
  "column_of grb = map (cell_of grb) (msg_keys grb)"

text \<open>
  \<^verbatim>\<open>df[i] = values\<close> for a new column label: the library refuses a list whose length
  differs from the number of rows.
\<close>

definition set_column ::
  "(string, nat) frame \<Rightarrow> nat \<Rightarrow> pyval option list \<Rightarrow> error + (string, nat) frame" where
  "set_column df i vals =
     (if length vals \<noteq> length (f_index df) then Inl ValueError
      else Inr (df\<lparr>f_columns := f_columns df @ [i],
                    f_rows := map (\<lambda>(r, v). r @ [v]) (zip (f_rows df) vals)\<rparr>))"

text \<open>The loop of lines 27 to 41.\<close>

fun fill :: "message list \<Rightarrow> nat \<Rightarrow> (string, nat) frame \<Rightarrow> error + (string, nat) frame" where
  "fill [] i df = Inr df"
| "fill (grb # grbs) i df =
     (case set_column df i (column_of grb) of
        Inl e \<Rightarrow> Inl e
      | Inr df' \<Rightarrow> fill grbs (Suc i) df')"

text \<open>\<^verbatim>\<open>pd.Series.nunique\<close>: the number of distinct values of a row, \<^verbatim>\<open>None\<close> not counted.\<close>

definition nunique :: "pyval option list \<Rightarrow> nat" where
  "nunique row = length (remdups (filter (\<lambda>c. c \<noteq> None) row))"

text \<open>\<^verbatim>\<open>df[mask]\<close> with one boolean per row.\<close>

definition select_rows ::
  "(pyval option list \<Rightarrow> bool) \<Rightarrow> ('r, 'c) frame \<Rightarrow> ('r, 'c) frame" where
  "select_rows p df =
     (let kept = filter (\<lambda>(k, r). p r) (zip (f_index df) (f_rows df))
      in df\<lparr>f_index := map fst kept, f_rows := map snd kept\<rparr>)"

definition sort_index :: "(string, 'c) frame \<Rightarrow> (string, 'c) frame" where
  "sort_index df =
     (let sorted_rows = sort_key fst (zip (f_index df) (f_rows df))
      in df\<lparr>f_index := map fst sorted_rows, f_rows := map snd sorted_rows\<rparr>)"

definition transpose_frame :: "('r, 'c) frame \<Rightarrow> ('c, 'r) frame" where
  "transpose_frame df =
     \<lparr>f_index = f_columns df, f_columns = f_index df,
      f_rows = map (\<lambda>j. map (\<lambda>r. r ! j) (f_rows df)) [0..<length (f_columns df)]\<rparr>"

text \<open>\<^verbatim>\<open>df.iloc[:, [0]]\<close>: the first column, which has to exist.\<close>

definition first_column :: "('r, 'c) frame \<Rightarrow> error + ('r, 'c) frame" where
  "first_column df =
     (case f_columns df of
        [] \<Rightarrow> Inl IndexError
      | c # _ \<Rightarrow> Inr (df\<lparr>f_columns := [c], f_rows := map (take 1) (f_rows df)\<rparr>))"

text \<open>\<^verbatim>\<open>Counter(xs).items()\<close>: each distinct element, in order of first occurrence, with its count.\<close>

definition counter :: "'a list \<Rightarrow> ('a \<times> nat) list" where
  "counter xs = map (\<lambda>x. (x, count_list xs x)) (rev (remdups (rev xs)))"

text \<open>\<^verbatim>\<open>grbs[0]\<close>: a bare message refuses an integer key; an empty list has no first element.\<close>

definition first_of :: "gribs \<Rightarrow> error + message" where
  "first_of grbs =
     (case grbs of
        Msg _ \<Rightarrow> Inl TypeError
      | Lst [] \<Rightarrow> Inl IndexError
      | Lst (grb # _) \<Rightarrow> Inr grb)"

text \<open>
  What the report prints, as data: the path handed to \<^verbatim>\<open>os.path.abspath\<close> (line 51; the
  absolute path itself depends on the working directory of the process and is not formed
  here), the date line (line 55), the size line (line 58), the number of layers (line 61),
  the dataset counts (lines 65 and 66), the table of the general overview (line 71) and the
  table of the layer-specific overview (line 77). Writing to standard output is taken to
  succeed. The two tables are printed by \<^verbatim>\<open>print_full_df\<close>, whose effect on the display
  limits is the function \<open>print_full_df\<close> above; the report has no other access to the
  limits, and every failure of the report below happens before the first table is printed.
\<close>

record report =
  grib_name :: "string option"
  grib_date :: "(pyval \<times> pyval) option"
  layer_size :: "(pyval \<times> pyval) option"
  number_of_layers :: nat
  datasets :: "(pyval option \<times> nat) list option"
  general :: "(string, nat) frame"
  layer_specific :: "(nat, string) frame"

text \<open>Lines 54 to 58: two unguarded lookups on the first message, behind a test on the row labels.\<close>

definition header_pair ::
  "bool \<Rightarrow> message \<Rightarrow> string \<Rightarrow> string \<Rightarrow> error + (pyval \<times> pyval) option" where
  "header_pair present grb k1 k2 =
     (if present then
        (case getitem grb k1 of
           Inl e \<Rightarrow> Inl e
         | Inr a \<Rightarrow> (case getitem grb k2 of Inl e \<Rightarrow> Inl e | Inr b \<Rightarrow> Inr (Some (a, b))))
      else Inr None)"

text \<open>\<^verbatim>\<open>df.ix["name", :]\<close>: the row labelled \<open>name\<close>.\<close>

definition row_of :: "('r, 'c) frame \<Rightarrow> 'r \<Rightarrow> pyval option list" where
  "row_of df k = (case map_of (zip (f_index df) (f_rows df)) k of Some r \<Rightarrow> r | None \<Rightarrow> [])"

text \<open>
  The report. Line 19 reads \<^verbatim>\<open>grbfile\<close>, a name that is bound nowhere in the module (the
  parameter is \<^verbatim>\<open>gribfile\<close>): for an argument that is not a string the test of line 19
  raises \<^verbatim>\<open>NameError\<close>, and lines 20 and 22 are never reached. \<^verbatim>\<open>open_grib\<close> is called
  with its default interval of 60 minutes.
\<close>

definition print_grib_content_report ::
  "(string \<Rightarrow> error + message list) \<Rightarrow> source \<Rightarrow> error + report" where
  "print_grib_content_report decode gribfile =
     (case (case gribfile of
              Path p \<Rightarrow> open_grib decode gribfile 60
            | Gribs _ \<Rightarrow> Inl (NameError ''grbfile'')) of
        Inl e \<Rightarrow> Inl e
      | Inr grbs \<Rightarrow>
     (case first_of grbs of
        Inl e \<Rightarrow> Inl e
      | Inr grb0 \<Rightarrow>
     (let layers = (case grbs of Lst gs \<Rightarrow> gs | Msg g \<Rightarrow> []);
          df0 = \<lparr>f_index = msg_keys grb0, f_columns = [], f_rows = map (\<lambda>_. []) (msg_keys grb0)\<rparr>
      in
     (case fill layers 0 df0 of
        Inl e \<Rightarrow> Inl e
      | Inr df \<Rightarrow>
     (let df_same = sort_index (select_rows (\<lambda>r. nunique r = 1) df);
          df_unique = transpose_frame (select_rows (\<lambda>r. nunique r > 1) df)
      in
     (case header_pair (''dataDate'' \<in> set (f_index df) \<and> ''dataTime'' \<in> set (f_index df))
             grb0 ''dataDate'' ''dataTime'' of
        Inl e \<Rightarrow> Inl e
      | Inr date \<Rightarrow>
     (case header_pair (''Nx'' \<in> set (f_index df) \<and> ''Nx'' \<in> set (f_index df))
             grb0 ''Nx'' ''Ny'' of
        Inl e \<Rightarrow> Inl e
      | Inr dims \<Rightarrow>
     (case first_column df_same of
        Inl e \<Rightarrow> Inl e
      | Inr overview \<Rightarrow>
          Inr \<lparr>grib_name = (case gribfile of Path p \<Rightarrow> Some p | Gribs _ \<Rightarrow> None),
               grib_date = date,
               layer_size = dims,
               number_of_layers = length layers,
               datasets = (if ''name'' \<in> set (f_index df)
                           then Some (counter (row_of df ''name'')) else None),
               general = overview,
               layer_specific = df_unique\<rparr>))))))))"

section \<open>Example inputs\<close>

text \<open>
  Small messages on which the functions above are run below. \<open>layer_tp\<close> and
  \<open>layer_t2m\<close> list the same keys; \<open>level\<close> cannot be read on \<open>layer_t2m\<close>.
  \<open>layer_short\<close> does not list \<open>level\<close> at all. \<open>layer_0600\<close> and \<open>layer_2300\<close>
  carry the three attributes of the temporal resolver; the forecast step of the second
  crosses the end of a year.
\<close>

definition layer_tp :: message where
  "layer_tp =
     \<lparr>msg_keys = [''shortName'', ''level'', ''values''],
      msg_items = [(''shortName'', StrV ''tp''), (''level'', IntV 2), (''values'', ArrV)],
      msg_values = [[1, -5], [1 / 2000, 2]],
      msg_latlons = ([[50, 50], [51, 51]], [[4, 5], [4, 5]])\<rparr>"

definition layer_t2m :: message where
  "layer_t2m =
     \<lparr>msg_keys = [''shortName'', ''level'', ''values''],
      msg_items = [(''shortName'', StrV ''t2m''), (''values'', ArrV)],
      msg_values = [[280, 281], [282, 283]],
      msg_latlons = ([[50, 50], [51, 51]], [[4, 5], [4, 5]])\<rparr>"

definition layer_short :: message where
  "layer_short =
     \<lparr>msg_keys = [''shortName'', ''values''],
      msg_items = [(''shortName'', StrV ''u10''), (''values'', ArrV)],
      msg_values = [[3, 4], [5, 6]],
      msg_latlons = ([[50, 50], [51, 51]], [[4, 5], [4, 5]])\<rparr>"

definition layer_0600 :: message where
  "layer_0600 =
     \<lparr>msg_keys = [''dataDate'', ''dataTime'', ''endStep''],
      msg_items = [(''dataDate'', IntV 20170104), (''dataTime'', IntV 600), (''endStep'', IntV 180)],
      msg_values = [[0]],
      msg_latlons = ([[50]], [[4]])\<rparr>"

definition layer_2300 :: message where
  "layer_2300 =
     \<lparr>msg_keys = [''dataDate'', ''dataTime'', ''endStep''],
      msg_items = [(''dataDate'', IntV 20161231), (''dataTime'', IntV 2300), (''endStep'', IntV 120)],
      msg_values = [[0]],
      msg_latlons = ([[50]], [[4]])\<rparr>"

text \<open>A decoder that knows three files.\<close>

definition decode_example :: "string \<Rightarrow> error + message list" where
  "decode_example p =
     (if p = ''one.grib'' then Inr [layer_tp]
      else if p = ''two.grib'' then Inr [layer_tp, layer_t2m]
      else if p = ''mixed.grib'' then Inr [layer_tp, layer_short]
      else Inl (IOError p))"

text \<open>The limits of the table library as shipped: 60 rows and 20 columns.\<close>

definition shipped_limits :: display where
  "shipped_limits = \<lparr>max_rows = Some 60, max_columns = Some 20\<rparr>"

section \<open>Properties of the filter engine\<close>

lemma show_nat_digit: "n < 10 \<Longrightarrow> show_nat n = [digit_char n]"
  by (simp add: show_nat.simps)

text \<open>Tests that pass are transparent: the loop goes on with the keys that follow.\<close>

lemma passes_filters_append:
  "passes_filters pre grb = Inr True \<Longrightarrow> passes_filters (pre @ rest) grb = passes_filters rest grb"
proof (induction pre grb rule: passes_filters.induct)
  case (1 grb)
  show ?case by simp
next
  case (2 k vs fs grb)
  then show ?case by (auto split: sum.splits if_splits)
next
  case (3 k v fs grb)
  then show ?case by (auto split: sum.splits if_splits)
next
  case (4 k vs fs grb)
  then show ?case by (auto split: sum.splits pyval.splits)
qed

lemma passes_filters_lookup_raises:
  "getitem grb k = Inl e \<Longrightarrow> passes_filters ((k, v) # post) grb = Inl e"
  by (cases v) simp_all

lemma ok_list_raises:
  "grb \<in> set grbs \<Longrightarrow> passes_filters fs grb = Inl e \<Longrightarrow> \<exists>e'. ok_list fs grbs = Inl e'"
proof (induction grbs)
  case Nil
  then show ?case by simp
next
  case (Cons g gs)
  show ?case
  proof (cases "passes_filters fs g")
    case (Inl a)
    then show ?thesis by simp
  next
    case (Inr b)
    with Cons have "grb \<in> set gs" by auto
    with Cons obtain e' where "ok_list fs gs = Inl e'" by blast
    with Inr show ?thesis by simp
  qed
qed

lemma ok_list_all_Inr:
  "\<forall>g \<in> set grbs. \<exists>b. passes_filters fs g = Inr b \<Longrightarrow>
   ok_list fs grbs = Inr (filter (\<lambda>g. passes_filters fs g = Inr True) grbs)"
  by (induction grbs) auto

lemma ok_list_first_raise:
  "\<forall>g \<in> set before. \<exists>b. passes_filters fs g = Inr b \<Longrightarrow> passes_filters fs grb = Inl e \<Longrightarrow>
   ok_list fs (before @ grb # after) = Inl e"
  by (induction before) auto

lemma ok_list_Inr_all:
  "ok_list fs grbs = Inr ok \<Longrightarrow> \<forall>g \<in> set grbs. \<exists>b. passes_filters fs g = Inr b"
  by (induction grbs arbitrary: ok) (auto split: sum.splits)

lemma failing_test:
  "passes_filters fs g = Inr False \<Longrightarrow>
   \<exists>pre k v post x. fs = pre @ (k, v) # post \<and> passes_filters pre g = Inr True
     \<and> getitem g k = Inr x
     \<and> (case v of Val w \<Rightarrow> py_eq x w = Inr False
                  | ListOf vs \<Rightarrow> py_in x vs = Inr False
                  | SetOf vs \<Rightarrow> x \<noteq> ArrV)"
proof (induction fs g rule: passes_filters.induct)
  case (1 grb)
  then show ?case by simp
next
  case (2 k vs fs grb)
  from "2.prems" obtain x b where x: "getitem grb k = Inr x" and b: "py_in x vs = Inr b"
    by (auto split: sum.splits)
  show ?case
  proof (cases b)
    case False
    with x b show ?thesis
      by (intro exI [of _ "[]"] exI [of _ k] exI [of _ "ListOf vs"] exI [of _ fs] exI [of _ x]) simp
  next
    case True
    with "2.prems" x b have "passes_filters fs grb = Inr False" by simp
    from "2.IH" [OF x b _ this] True obtain pre k' v post x' where
      p: "fs = pre @ (k', v) # post" "passes_filters pre grb = Inr True" "getitem grb k' = Inr x'"
        "(case v of Val w \<Rightarrow> py_eq x' w = Inr False
                  | ListOf vs \<Rightarrow> py_in x' vs = Inr False
                  | SetOf vs \<Rightarrow> x' \<noteq> ArrV)"
      by auto
    have "passes_filters ((k, ListOf vs) # pre) grb = Inr True"
      using x b True p(2) by simp
    with p show ?thesis
      by (intro exI [of _ "(k, ListOf vs) # pre"] exI [of _ k'] exI [of _ v] exI [of _ post]
          exI [of _ x']) simp
  qed
next
  case (3 k w fs grb)
  from "3.prems" obtain x b where x: "getitem grb k = Inr x" and b: "py_eq x w = Inr b"
    by (auto split: sum.splits)
  show ?case
  proof (cases b)
    case False
    with x b show ?thesis
      by (intro exI [of _ "[]"] exI [of _ k] exI [of _ "Val w"] exI [of _ fs] exI [of _ x]) simp
  next
    case True
    with "3.prems" x b have "passes_filters fs grb = Inr False" by simp
    from "3.IH" [OF x b _ this] True obtain pre k' v post x' where
      p: "fs = pre @ (k', v) # post" "passes_filters pre grb = Inr True" "getitem grb k' = Inr x'"
        "(case v of Val w \<Rightarrow> py_eq x' w = Inr False
                  | ListOf vs \<Rightarrow> py_in x' vs = Inr False
                  | SetOf vs \<Rightarrow> x' \<noteq> ArrV)"
      by auto
    have "passes_filters ((k, Val w) # pre) grb = Inr True"
      using x b True p(2) by simp
    with p show ?thesis
      by (intro exI [of _ "(k, Val w) # pre"] exI [of _ k'] exI [of _ v] exI [of _ post]
          exI [of _ x']) simp
  qed
next
  case (4 k vs fs grb)
  from "4.prems" obtain x where x: "getitem grb k = Inr x" "x \<noteq> ArrV"
    by (auto split: sum.splits pyval.splits)
  then show ?case
    by (intro exI [of _ "[]"] exI [of _ k] exI [of _ "SetOf vs"] exI [of _ fs] exI [of _ x]) simp
qed

lemma passing_tests:
  "passes_filters fs g = Inr True \<Longrightarrow>
   \<forall>(k, v) \<in> set fs. \<exists>x. getitem g k = Inr x
     \<and> (case v of Val w \<Rightarrow> py_eq x w = Inr True
                  | ListOf vs \<Rightarrow> py_in x vs = Inr True
                  | SetOf vs \<Rightarrow> False)"
proof (induction fs g rule: passes_filters.induct)
  case (1 grb)
  show ?case by simp
next
  case (2 k vs fs grb)
  from "2.prems" obtain x where x: "getitem grb k = Inr x" and b: "py_in x vs = Inr True"
    and rest: "passes_filters fs grb = Inr True"
    by (auto split: sum.splits if_splits)
  from "2.IH" [OF x b _ rest] x b show ?case by simp
next
  case (3 k w fs grb)
  from "3.prems" obtain x where x: "getitem grb k = Inr x" and b: "py_eq x w = Inr True"
    and rest: "passes_filters fs grb = Inr True"
    by (auto split: sum.splits if_splits)
  from "3.IH" [OF x b _ rest] x b show ?case by simp
next
  case (4 k vs fs grb)
  then show ?case by (auto split: sum.splits pyval.splits)
qed

text \<open>
  Claim C1, as the code has it. The claim says that a message on which a filter key cannot
  be looked up is left out of the result and that the call never raises. The lookup in
  \<^verbatim>\<open>passes_filters\<close> has no handler, so the opposite holds. As soon as, for some message of
  the sequence, the tests before a key \<open>k\<close> pass and the lookup of \<open>k\<close> raises, the whole
  call to \<^verbatim>\<open>filter_grib_layers\<close> raises and returns no result; the exception is that of the
  first message on which the filter raises. The call returns exactly when the filter
  raises on no message, and its result is then the messages on which the filter gives
  true, in their order (a single one of them bare), with their number in the printed line.
  A message on which the filter gives false has a key that is readable, with all tests
  before it passed, whose own test fails: only a failing test leaves a message out.
  A message on which the filter gives true has every key of the filter readable and every
  test of the filter passed; no set-valued test is among them.
\<close>

theorem filter_propagates_lookup_error:
  "(grb \<in> set grbs \<and> passes_filters pre grb = Inr True \<and> getitem grb k = Inl e
      \<longrightarrow> (\<exists>e'. filter_grib_layers grbs (pre @ (k, v) # post) = Inl e'))
   \<and> ((\<forall>g \<in> set before. \<exists>b. passes_filters (pre @ (k, v) # post) g = Inr b)
        \<and> passes_filters pre grb = Inr True \<and> getitem grb k = Inl e
      \<longrightarrow> filter_grib_layers (before @ grb # after) (pre @ (k, v) # post) = Inl e)
   \<and> ((\<forall>g \<in> set grbs. \<exists>b. passes_filters fs g = Inr b)
      \<longrightarrow> filter_grib_layers grbs fs =
            Inr (''After filterings still ''
                   @ show_nat (length (filter (\<lambda>g. passes_filters fs g = Inr True) grbs))
                   @ '' grib messages left.'',
                 (case filter (\<lambda>g. passes_filters fs g = Inr True) grbs of
                    [g] \<Rightarrow> Msg g
                  | _ \<Rightarrow> Lst (filter (\<lambda>g. passes_filters fs g = Inr True) grbs))))
   \<and> (filter_grib_layers grbs fs = Inr r
      \<longrightarrow> (\<forall>g \<in> set grbs. \<exists>b. passes_filters fs g = Inr b))
   \<and> (passes_filters fs grb = Inr False
      \<longrightarrow> (\<exists>pre' k' v' post' x.
             fs = pre' @ (k', v') # post' \<and> passes_filters pre' grb = Inr True
             \<and> getitem grb k' = Inr x
             \<and> (case v' of Val w \<Rightarrow> py_eq x w = Inr False
                           | ListOf vs \<Rightarrow> py_in x vs = Inr False
                           | SetOf vs \<Rightarrow> x \<noteq> ArrV)))
   \<and> (passes_filters fs grb = Inr True
      \<longrightarrow> (\<forall>(k', v') \<in> set fs. \<exists>x. getitem grb k' = Inr x
             \<and> (case v' of Val w \<Rightarrow> py_eq x w = Inr True
                           | ListOf vs \<Rightarrow> py_in x vs = Inr True
                           | SetOf vs \<Rightarrow> False)))"
proof -
  have raises: "passes_filters (pre @ (k, v) # post) grb = Inl e"
    if "passes_filters pre grb = Inr True" "getitem grb k = Inl e"
    using that by (simp add: passes_filters_append passes_filters_lookup_raises)
  have 1: "\<exists>e'. filter_grib_layers grbs (pre @ (k, v) # post) = Inl e'"
    if "grb \<in> set grbs" "passes_filters pre grb = Inr True" "getitem grb k = Inl e"
  proof -
    from ok_list_raises [OF that(1) raises [OF that(2,3)]]
    obtain e' where "ok_list (pre @ (k, v) # post) grbs = Inl e'" by blast
    then show ?thesis by (simp add: filter_grib_layers_def)
  qed
  have 2: "filter_grib_layers (before @ grb # after) (pre @ (k, v) # post) = Inl e"
    if "\<forall>g \<in> set before. \<exists>b. passes_filters (pre @ (k, v) # post) g = Inr b"
      "passes_filters pre grb = Inr True" "getitem grb k = Inl e"
    using ok_list_first_raise [OF that(1) raises [OF that(2,3)]]
    by (simp add: filter_grib_layers_def)
  have 3: "filter_grib_layers grbs fs =
            Inr (''After filterings still ''
                   @ show_nat (length (filter (\<lambda>g. passes_filters fs g = Inr True) grbs))
                   @ '' grib messages left.'',
                 (case filter (\<lambda>g. passes_filters fs g = Inr True) grbs of
                    [g] \<Rightarrow> Msg g
                  | _ \<Rightarrow> Lst (filter (\<lambda>g. passes_filters fs g = Inr True) grbs)))"
    if "\<forall>g \<in> set grbs. \<exists>b. passes_filters fs g = Inr b"
    using ok_list_all_Inr [OF that] by (simp add: filter_grib_layers_def)
  have 4: "\<forall>g \<in> set grbs. \<exists>b. passes_filters fs g = Inr b"
    if "filter_grib_layers grbs fs = Inr r"
  proof -
    from that obtain ok where "ok_list fs grbs = Inr ok"
      by (auto simp: filter_grib_layers_def split: sum.splits)
    then show ?thesis by (rule ok_list_Inr_all)
  qed
  note 5 = failing_test [of fs grb]
  note 6 = passing_tests [of fs grb]
  have a: "grb \<in> set grbs \<and> passes_filters pre grb = Inr True \<and> getitem grb k = Inl e
      \<longrightarrow> (\<exists>e'. filter_grib_layers grbs (pre @ (k, v) # post) = Inl e')"
    using 1 by blast
  have b: "(\<forall>g \<in> set before. \<exists>b. passes_filters (pre @ (k, v) # post) g = Inr b)
        \<and> passes_filters pre grb = Inr True \<and> getitem grb k = Inl e
      \<longrightarrow> filter_grib_layers (before @ grb # after) (pre @ (k, v) # post) = Inl e"
    using 2 by blast
  show ?thesis
    apply (intro conjI)
         apply (rule a)
        apply (rule b)
       apply (rule impI, erule 3)
      apply (rule impI, erule 4)
     apply (rule impI, erule 5)
    apply (rule impI, erule 6)
    done
qed

theorem filter_propagates_lookup_error_witness:
  "layer_t2m \<in> set [layer_tp, layer_t2m]
   \<and> passes_filters [(''shortName'', Val (StrV ''t2m''))] layer_t2m = Inr True
   \<and> getitem layer_t2m ''level'' = Inl (RuntimeError ''level'')
   \<and> (\<exists>e'. filter_grib_layers [layer_tp, layer_t2m]
              ([(''shortName'', Val (StrV ''t2m''))] @ (''level'', Val (IntV 2)) # []) = Inl e')
   \<and> passes_filters [(''level'', Val (IntV 2))] layer_tp = Inr True
   \<and> filter_grib_layers ([layer_tp] @ layer_t2m # []) ([] @ (''level'', Val (IntV 2)) # [])
        = Inl (RuntimeError ''level'')
   \<and> passes_filters [(''shortName'', ListOf [StrV ''tp'', StrV ''t2m''])] layer_tp = Inr True
   \<and> passes_filters [(''shortName'', ListOf [StrV ''tp'', StrV ''t2m''])] layer_t2m = Inr True
   \<and> filter_grib_layers [layer_tp, layer_t2m] [(''shortName'', ListOf [StrV ''tp'', StrV ''t2m''])]
        = Inr (''After filterings still 2 grib messages left.'', Lst [layer_tp, layer_t2m])
   \<and> passes_filters [(''shortName'', Val (StrV ''tp''))] layer_t2m = Inr False
   \<and> (\<exists>pre' k' v' post' x.
         [(''shortName'', Val (StrV ''tp''))] = pre' @ (k', v') # post'
         \<and> passes_filters pre' layer_t2m = Inr True \<and> getitem layer_t2m k' = Inr x
         \<and> (case v' of Val w \<Rightarrow> py_eq x w = Inr False
                       | ListOf vs \<Rightarrow> py_in x vs = Inr False
                       | SetOf vs \<Rightarrow> x \<noteq> ArrV))
   \<and> (\<exists>x. getitem layer_t2m ''shortName'' = Inr x \<and> py_eq x (StrV ''t2m'') = Inr True)"
proof -
  let ?both = "[(''shortName'', ListOf [StrV ''tp'', StrV ''t2m''])]"
  have h1: "layer_t2m \<in> set [layer_tp, layer_t2m]" by simp
  have h2: "passes_filters [(''shortName'', Val (StrV ''t2m''))] layer_t2m = Inr True"
    by (simp add: getitem_def layer_t2m_def)
  have h3: "getitem layer_t2m ''level'' = Inl (RuntimeError ''level'')"
    by (simp add: getitem_def layer_t2m_def)
  have c1: "\<exists>e'. filter_grib_layers [layer_tp, layer_t2m]
              ([(''shortName'', Val (StrV ''t2m''))] @ (''level'', Val (IntV 2)) # []) = Inl e'"
    by (rule filter_propagates_lookup_error
        [of layer_t2m "[layer_tp, layer_t2m]" "[(''shortName'', Val (StrV ''t2m''))]"
            "''level''" "RuntimeError ''level''" "Val (IntV 2)" "[]",
         THEN conjunct1, THEN mp])
       (intro conjI h1 h2 h3)
  have h4: "passes_filters [(''level'', Val (IntV 2))] layer_tp = Inr True"
    by (simp add: getitem_def layer_tp_def)
  have h4': "\<forall>g \<in> set [layer_tp]. \<exists>b. passes_filters ([] @ (''level'', Val (IntV 2)) # []) g = Inr b"
    by (auto simp: getitem_def layer_tp_def)
  have h5: "passes_filters [] layer_t2m = Inr True" by simp
  have c2: "filter_grib_layers ([layer_tp] @ layer_t2m # []) ([] @ (''level'', Val (IntV 2)) # [])
        = Inl (RuntimeError ''level'')"
    by (rule filter_propagates_lookup_error
        [of layer_t2m _ "[]" "''level''" "RuntimeError ''level''" "Val (IntV 2)" "[]"
            "[layer_tp]" "[]",
         THEN conjunct2, THEN conjunct1, THEN mp])
       (intro conjI h4' h5 h3)
  have p1: "passes_filters ?both layer_tp = Inr True"
    by (simp add: getitem_def layer_tp_def)
  have p2: "passes_filters ?both layer_t2m = Inr True"
    by (simp add: getitem_def layer_t2m_def)
  have all: "\<forall>g \<in> set [layer_tp, layer_t2m]. \<exists>b. passes_filters ?both g = Inr b"
    using p1 p2 by auto
  have big: "filter_grib_layers [layer_tp, layer_t2m] ?both =
            Inr (''After filterings still ''
                   @ show_nat (length (filter (\<lambda>g. passes_filters ?both g = Inr True)
                                         [layer_tp, layer_t2m]))
                   @ '' grib messages left.'',
                 (case filter (\<lambda>g. passes_filters ?both g = Inr True) [layer_tp, layer_t2m] of
                    [g] \<Rightarrow> Msg g
                  | _ \<Rightarrow> Lst (filter (\<lambda>g. passes_filters ?both g = Inr True)
                                 [layer_tp, layer_t2m])))"
    by (rule filter_propagates_lookup_error
        [where grbs = "[layer_tp, layer_t2m]" and fs = ?both,
         THEN conjunct2, THEN conjunct2, THEN conjunct1, THEN mp])
       (rule all)
  have kept: "filter (\<lambda>g. passes_filters ?both g = Inr True) [layer_tp, layer_t2m]
      = [layer_tp, layer_t2m]"
    by (simp only: filter.simps p1 p2 simp_thms if_True)
  have two: "show_nat (length [layer_tp, layer_t2m]) = ''2''"
    by (simp add: show_nat_digit digit_char_def)
  have shape: "(case [layer_tp, layer_t2m] of [g] \<Rightarrow> Msg g | _ \<Rightarrow> Lst [layer_tp, layer_t2m])
      = Lst [layer_tp, layer_t2m]"
    by simp
  have line: "''After filterings still '' @ ''2'' @ '' grib messages left.''
      = ''After filterings still 2 grib messages left.''"
    by simp
  have c3: "filter_grib_layers [layer_tp, layer_t2m] ?both
        = Inr (''After filterings still 2 grib messages left.'', Lst [layer_tp, layer_t2m])"
    by (simp only: big kept two shape line)
  have h6: "passes_filters [(''shortName'', Val (StrV ''tp''))] layer_t2m = Inr False"
    by (simp add: getitem_def layer_t2m_def)
  have c5: "\<exists>pre' k' v' post' x.
         [(''shortName'', Val (StrV ''tp''))] = pre' @ (k', v') # post'
         \<and> passes_filters pre' layer_t2m = Inr True \<and> getitem layer_t2m k' = Inr x
         \<and> (case v' of Val w \<Rightarrow> py_eq x w = Inr False
                       | ListOf vs \<Rightarrow> py_in x vs = Inr False
                       | SetOf vs \<Rightarrow> x \<noteq> ArrV)"
    by (rule filter_propagates_lookup_error
        [where fs = "[(''shortName'', Val (StrV ''tp''))]" and grb = layer_t2m,
         THEN conjunct2, THEN conjunct2, THEN conjunct2, THEN conjunct2, THEN conjunct1,
         THEN mp])
       (rule h6)
  have all6: "\<forall>(k', v') \<in> set [(''shortName'', Val (StrV ''t2m''))].
        \<exists>x. getitem layer_t2m k' = Inr x
          \<and> (case v' of Val w \<Rightarrow> py_eq x w = Inr True
                        | ListOf vs \<Rightarrow> py_in x vs = Inr True
                        | SetOf vs \<Rightarrow> False)"
    by (rule filter_propagates_lookup_error
        [where fs = "[(''shortName'', Val (StrV ''t2m''))]" and grb = layer_t2m,
         THEN conjunct2, THEN conjunct2, THEN conjunct2, THEN conjunct2, THEN conjunct2,
         THEN mp])
       (rule h2)
  have c6: "\<exists>x. getitem layer_t2m ''shortName'' = Inr x \<and> py_eq x (StrV ''t2m'') = Inr True"
    using all6 by simp
  show ?thesis
    by (intro conjI h1 h2 h3 c1 h4 c2 p1 p2 c3 h6 c5 c6)
qed

text \<open>
  The claim fails on two layers filtered by \<^verbatim>\<open>level=2\<close>: the first layer has level 2, the
  second cannot read \<open>level\<close>. The claim expects the first layer as the result; the call
  raises the decoder's error instead.
\<close>

theorem filter_missing_attribute_counterexample:
  "filter_grib_layers [layer_tp, layer_t2m] [(''level'', Val (IntV 2))]
     = Inl (RuntimeError ''level'')"
  by (simp add: filter_grib_layers_def getitem_def layer_tp_def layer_t2m_def)

lemma ok_list_empty_filter: "ok_list [] grbs = Inr grbs"
  by (induction grbs) simp_all

text \<open>
  Claim C3, as the code has it. With no filter every message passes. The result is the
  input sequence, except that a sequence of exactly one message comes back as that bare
  message and not as a sequence of length one; the printed line states the length.
\<close>

theorem filter_empty_filter:
  "filter_grib_layers grbs [] =
     Inr (''After filterings still '' @ show_nat (length grbs) @ '' grib messages left.'',
          (case grbs of [grb] \<Rightarrow> Msg grb | _ \<Rightarrow> Lst grbs))"
  by (simp add: filter_grib_layers_def ok_list_empty_filter)

theorem filter_empty_filter_witness:
  "filter_grib_layers [layer_tp, layer_t2m] [] =
     Inr (''After filterings still 2 grib messages left.'', Lst [layer_tp, layer_t2m])"
  using filter_empty_filter [of "[layer_tp, layer_t2m]"] by (simp add: show_nat_digit digit_char_def)

text \<open>The claim fails on a sequence of length one: the shape of the sequence is lost.\<close>

theorem filter_empty_filter_counterexample:
  "filter_grib_layers [layer_tp] [] =
     Inr (''After filterings still 1 grib messages left.'', Msg layer_tp)
   \<and> filter_grib_layers [layer_tp] [] \<noteq>
     Inr (''After filterings still 1 grib messages left.'', Lst [layer_tp])"
  by (simp add: filter_grib_layers_def show_nat_digit digit_char_def)

lemma py_in_scalars:
  "x \<noteq> ArrV \<Longrightarrow> ArrV \<notin> set vs \<Longrightarrow> py_in x vs = Inr (x \<in> set vs)"
proof (induction vs)
  case Nil
  show ?case by simp
next
  case (Cons v vs)
  then have "py_eq x v = Inr (x = v)" by (cases x; cases v) simp_all
  with Cons show ?case by (auto split: bool.splits)
qed

text \<open>
  Claim C7, as the code has it. The membership test is applied to a filter value that is a
  list: for a readable scalar attribute and a list of scalars, the message passes the entry
  exactly when the attribute value is an element of the list, and the loop then goes on
  with the remaining entries. A filter value that is a set is not recognised as a
  collection: it is compared with the attribute value as a whole, the two are never equal,
  and the message fails the entry whether or not the attribute value is in the set.
\<close>

theorem list_filter_is_membership:
  assumes "getitem grb k = Inr x" and "x \<noteq> ArrV" and "ArrV \<notin> set vs"
  shows "passes_filters ((k, ListOf vs) # fs) grb =
           (if x \<in> set vs then passes_filters fs grb else Inr False)
         \<and> passes_filters ((k, SetOf vs) # fs) grb = Inr False"
  using assms by (cases x) (simp_all add: py_in_scalars)

theorem list_filter_is_membership_witness:
  "getitem layer_tp ''shortName'' = Inr (StrV ''tp'') \<and> StrV ''tp'' \<noteq> ArrV
   \<and> ArrV \<notin> set [StrV ''t2m'', StrV ''tp'']
   \<and> passes_filters [(''shortName'', ListOf [StrV ''t2m'', StrV ''tp''])] layer_tp = Inr True
   \<and> passes_filters [(''shortName'', SetOf [StrV ''t2m'', StrV ''tp''])] layer_tp = Inr False"
proof -
  have h1: "getitem layer_tp ''shortName'' = Inr (StrV ''tp'')"
    by (simp add: getitem_def layer_tp_def)
  have h2: "StrV ''tp'' \<noteq> ArrV" by simp
  have h3: "ArrV \<notin> set [StrV ''t2m'', StrV ''tp'']" by simp
  show ?thesis
    using h1 h2 h3 list_filter_is_membership [OF h1 h2 h3, of "[]"] by simp
qed

text \<open>
  The claim fails for a set: \<open>shortName\<close> is \<open>tp\<close>, the set of accepted values holds
  \<open>tp\<close>, and the message does not pass.
\<close>

theorem set_filter_counterexample:
  "StrV ''tp'' \<in> set [StrV ''t2m'', StrV ''tp'']
   \<and> getitem layer_tp ''shortName'' = Inr (StrV ''tp'')
   \<and> passes_filters [(''shortName'', SetOf [StrV ''t2m'', StrV ''tp''])] layer_tp = Inr False"
  by (simp add: getitem_def layer_tp_def)

section \<open>Properties of message store access\<close>

text \<open>
  Claim C4, as the code has it. When the decoder yields exactly one message,
  \<^verbatim>\<open>open_grib\<close> returns that message bare (with \<open>stepUnits\<close> overwritten when the interval
  is below 60 minutes), not a sequence of length one.
\<close>

theorem open_grib_single_message:
  assumes "decode p = Inr [grb]"
  shows "open_grib decode (Path p) timestep_interval_mins =
           Inr (Msg (if timestep_interval_mins < 60
                     then setitem grb ''stepUnits'' (IntV 0) else grb))"
  using assms by (simp add: open_grib_def)

theorem open_grib_single_message_witness:
  "decode_example ''one.grib'' = Inr [layer_tp]
   \<and> open_grib decode_example (Path ''one.grib'') 60 = Inr (Msg layer_tp)"
proof -
  have h: "decode_example ''one.grib'' = Inr [layer_tp]" by (simp add: decode_example_def)
  show ?thesis
    using h open_grib_single_message [of decode_example "''one.grib''" layer_tp 60, OF h] by simp
qed

text \<open>The claim fails on a file of one message: the result is no sequence.\<close>

theorem open_grib_single_message_counterexample:
  "decode_example ''one.grib'' = Inr [layer_tp]
   \<and> open_grib decode_example (Path ''one.grib'') 60 = Inr (Msg layer_tp)
   \<and> open_grib decode_example (Path ''one.grib'') 60 \<noteq> Inr (Lst [layer_tp])"
  by (simp add: open_grib_def decode_example_def)

section \<open>Properties of the raster extractor\<close>

text \<open>
  Claim C5. A sequence of exactly one message gives the same result as the message itself;
  a sequence of more than one message is refused, and the text of the error states the
  length of the sequence: for two messages it reads \<open>2 layers\<close>. The error is the one
  raised at line 177 (an \<^verbatim>\<open>IOError\<close>, the module's error for more than one layer).
\<close>

theorem raster_one_layer_only:
  "grib_message_to_arrays_raster (Lst [grb]) nodata_buffer nodata =
     grib_message_to_arrays_raster (Msg grb) nodata_buffer nodata
   \<and> (length gs > 1 \<longrightarrow>
        grib_message_to_arrays_raster (Lst gs) nodata_buffer nodata =
          Inl (IOError (''You can only pass a one-layered grib list or a grib message. '' @
                        ''You passed a grib with '' @ show_nat (length gs) @ '' layers.'')))
   \<and> (length gs = 2 \<longrightarrow>
        grib_message_to_arrays_raster (Lst gs) nodata_buffer nodata =
          Inl (IOError (''You can only pass a one-layered grib list or a grib message. '' @
                        ''You passed a grib with 2 layers.'')))"
  by (simp add: grib_message_to_arrays_raster_def one_layer_def show_nat_digit digit_char_def)

theorem raster_one_layer_only_witness:
  "grib_message_to_arrays_raster (Lst [layer_tp]) (Some (1 / 1000)) 0 =
     grib_message_to_arrays_raster (Msg layer_tp) (Some (1 / 1000)) 0
   \<and> length [layer_tp, layer_t2m] > 1 \<and> length [layer_tp, layer_t2m] = 2
   \<and> grib_message_to_arrays_raster (Lst [layer_tp, layer_t2m]) (Some (1 / 1000)) 0 =
          Inl (IOError (''You can only pass a one-layered grib list or a grib message. '' @
                        ''You passed a grib with 2 layers.''))"
proof -
  have len: "length [layer_tp, layer_t2m] > 1 \<and> length [layer_tp, layer_t2m] = 2" by simp
  show ?thesis
    using len raster_one_layer_only [of layer_tp "Some (1 / 1000)" 0 "[layer_tp, layer_t2m]"]
    by blast
qed

lemma mask_assign_entry:
  assumes "i < length vals" and "j < length (vals ! i)"
  shows "mask_assign t nodata vals ! i ! j = (if vals ! i ! j < t then nodata else vals ! i ! j)"
  using assms by (simp add: mask_assign_def)

text \<open>
  Claim C2, as the code has it. For a threshold other than zero the call returns a value
  grid of the same shape in which every entry that is less than the threshold (as a signed
  number) is the nodata value and every entry at or above the threshold is unchanged. The
  magnitude of an entry plays no part: a negative entry is below every positive threshold
  and is replaced.
\<close>

theorem raster_nodata_is_signed_threshold:
  assumes "t \<noteq> 0" and "i < length (msg_values grb)" and "j < length (msg_values grb ! i)"
  shows "\<exists>vals lats lons.
           grib_message_to_arrays_raster (Msg grb) (Some t) nodata = Inr (vals, lats, lons)
           \<and> length vals = length (msg_values grb)
           \<and> length (vals ! i) = length (msg_values grb ! i)
           \<and> (msg_values grb ! i ! j < t \<longrightarrow> vals ! i ! j = nodata)
           \<and> (t \<le> msg_values grb ! i ! j \<longrightarrow> vals ! i ! j = msg_values grb ! i ! j)"
proof -
  obtain lats lons where ll: "msg_latlons grb = (lats, lons)" by (cases "msg_latlons grb")
  have r: "grib_message_to_arrays_raster (Msg grb) (Some t) nodata
             = Inr (mask_assign t nodata (msg_values grb), lats, lons)"
    using assms(1) ll
    by (simp add: grib_message_to_arrays_raster_def one_layer_def truthy_def)
  have "length (mask_assign t nodata (msg_values grb)) = length (msg_values grb)"
    by (simp add: mask_assign_def)
  moreover have "length (mask_assign t nodata (msg_values grb) ! i) = length (msg_values grb ! i)"
    using assms(2) by (simp add: mask_assign_def)
  moreover note mask_assign_entry [OF assms(2,3), of t nodata]
  ultimately show ?thesis using r by auto
qed

theorem raster_nodata_is_signed_threshold_witness:
  "(1 / 1000 :: real) \<noteq> 0 \<and> 0 < length (msg_values layer_tp)
   \<and> 1 < length (msg_values layer_tp ! 0)
   \<and> msg_values layer_tp ! 0 ! 1 = - 5
   \<and> (\<exists>vals lats lons.
         grib_message_to_arrays_raster (Msg layer_tp) (Some (1 / 1000)) 0 = Inr (vals, lats, lons)
         \<and> vals ! 0 ! 1 = 0)"
proof -
  have h1: "(1 / 1000 :: real) \<noteq> 0" by simp
  have h2: "0 < length (msg_values layer_tp)" by (simp add: layer_tp_def)
  have h3: "1 < length (msg_values layer_tp ! 0)" by (simp add: layer_tp_def)
  have h4: "msg_values layer_tp ! 0 ! 1 = - 5" by (simp add: layer_tp_def)
  have h5: "msg_values layer_tp ! 0 ! 1 < 1 / 1000" by (simp add: layer_tp_def)
  from raster_nodata_is_signed_threshold [OF h1 h2 h3, of 0] h5
  have "\<exists>vals lats lons.
         grib_message_to_arrays_raster (Msg layer_tp) (Some (1 / 1000)) 0 = Inr (vals, lats, lons)
         \<and> vals ! 0 ! 1 = 0"
    by blast
  with h1 h2 h3 h4 show ?thesis by blast
qed

text \<open>
  The claim fails on an entry of \<open>-5\<close> with the default threshold: its magnitude is above
  the threshold, and the entry is overwritten with the nodata value all the same.
\<close>

theorem raster_negative_entry_counterexample:
  "\<bar>- 5 :: real\<bar> \<ge> 1 / 1000
   \<and> msg_values layer_tp = [[1, - 5], [1 / 2000, 2]]
   \<and> grib_message_to_arrays_raster (Msg layer_tp) (Some (1 / 1000)) 0
       = Inr ([[1, 0], [0, 2]], [[50, 50], [51, 51]], [[4, 5], [4, 5]])"
  by (simp add: grib_message_to_arrays_raster_def one_layer_def truthy_def mask_assign_def
      layer_tp_def)

section \<open>Properties of the display limits\<close>

text \<open>
  Claim C8, as the code has it. \<^verbatim>\<open>print_full_df\<close> sets the two limits to the numbers of
  rows and columns of the table. When printing returns, both limits are reset to the
  defaults of the library, whatever they were before the call; when printing raises, the
  resets are skipped and the limits stay at the numbers of rows and columns.
\<close>

theorem print_full_df_limits:
  "print_full_df dflt None x st = (Inr (), dflt)
   \<and> print_full_df dflt (Some e) x st =
       (Inl e, \<lparr>max_rows = Some (length (f_index x)), max_columns = Some (length (f_columns x))\<rparr>)"
  by (simp add: print_full_df_def)

theorem print_full_df_limits_witness:
  "print_full_df shipped_limits None
     \<lparr>f_index = [''a'', ''b'', ''c''], f_columns = [0 :: nat], f_rows = [[None], [None], [None]]\<rparr>
     shipped_limits = (Inr (), shipped_limits)"
  using print_full_df_limits
    [of shipped_limits
        "\<lparr>f_index = [''a'', ''b'', ''c''], f_columns = [0 :: nat], f_rows = [[None], [None], [None]]\<rparr>"
        shipped_limits]
  by blast

text \<open>
  The claim fails twice on a table of three rows and one column: after a print that raises
  the limits are 3 and 1, not the limits from before the call; and after a print that
  returns, limits that had been lifted before the call are back at the defaults.
\<close>

theorem print_full_df_restore_counterexample:
  "snd (print_full_df shipped_limits (Some (IOError ''stdout''))
     \<lparr>f_index = [''a'', ''b'', ''c''], f_columns = [0 :: nat], f_rows = [[None], [None], [None]]\<rparr>
     shipped_limits) = \<lparr>max_rows = Some 3, max_columns = Some 1\<rparr>
   \<and> \<lparr>max_rows = Some 3, max_columns = Some 1\<rparr> \<noteq> shipped_limits
   \<and> snd (print_full_df shipped_limits None
     \<lparr>f_index = [''a'', ''b'', ''c''], f_columns = [0 :: nat], f_rows = [[None], [None], [None]]\<rparr>
     \<lparr>max_rows = None, max_columns = None\<rparr>) = shipped_limits
   \<and> shipped_limits \<noteq> \<lparr>max_rows = None, max_columns = None\<rparr>"
  by (simp add: print_full_df_def shipped_limits_def)

section \<open>Properties of the report generator\<close>

text \<open>
  Claim C9 does not hold of the code. Two layers list the same keys; \<open>level\<close> is readable
  on the first and raises on the second. Handed over as a list, they never reach the loop
  that guards the lookups: line 19 raises \<^verbatim>\<open>NameError\<close>. Read from a file, two layers of
  which the second does not list \<open>level\<close> make the assignment of the second column raise
  \<^verbatim>\<open>ValueError\<close>, since the cells are collected along the keys of each message and not
  along the rows of the table.
\<close>

theorem report_raises_on_lists:
  "getitem layer_tp ''level'' = Inr (IntV 2)
   \<and> getitem layer_t2m ''level'' = Inl (RuntimeError ''level'')
   \<and> print_grib_content_report decode_example (Gribs (Lst [layer_tp, layer_t2m]))
       = Inl (NameError ''grbfile'')
   \<and> print_grib_content_report decode_example (Path ''mixed.grib'') = Inl ValueError"
  by (simp add: print_grib_content_report_def open_grib_def decode_example_def first_of_def
      set_column_def column_of_def getitem_def layer_tp_def layer_t2m_def layer_short_def)

lemma set_column_Inr:
  assumes "set_column df n vals = Inr df'"
  shows "length vals = length (f_index df) \<and> f_index df' = f_index df
         \<and> f_rows df' = map (\<lambda>(r, v). r @ [v]) (zip (f_rows df) vals)"
  using assms by (auto simp: set_column_def split: if_splits)

lemma fill_rows:
  assumes "fill grbs n df = Inr df'" and "length (f_rows df) = length (f_index df)"
  shows "f_index df' = f_index df \<and> length (f_rows df') = length (f_index df)
         \<and> (\<forall>j < length (f_index df).
               f_rows df' ! j = f_rows df ! j @ map (\<lambda>g. column_of g ! j) grbs)
         \<and> (\<forall>g \<in> set grbs. length (column_of g) = length (f_index df))"
  using assms
proof (induction grbs arbitrary: n df)
  case Nil
  then show ?case by simp
next
  case (Cons g gs)
  from Cons.prems(1) obtain df1 where
    sc: "set_column df n (column_of g) = Inr df1" and rest: "fill gs (Suc n) df1 = Inr df'"
    by (auto split: sum.splits)
  from set_column_Inr [OF sc] have
    len: "length (column_of g) = length (f_index df)" and
    idx: "f_index df1 = f_index df" and
    rows: "f_rows df1 = map (\<lambda>(r, v). r @ [v]) (zip (f_rows df) (column_of g))"
    by auto
  have l1: "length (f_rows df1) = length (f_index df1)"
    using rows len idx Cons.prems(2) by simp
  from Cons.IH [OF rest l1] have
    ih: "f_index df' = f_index df1" "length (f_rows df') = length (f_index df1)"
      "\<forall>j < length (f_index df1).
          f_rows df' ! j = f_rows df1 ! j @ map (\<lambda>g. column_of g ! j) gs"
      "\<forall>g \<in> set gs. length (column_of g) = length (f_index df1)"
    by auto
  have "f_rows df1 ! j = f_rows df ! j @ [column_of g ! j]" if "j < length (f_index df)" for j
    using that rows len Cons.prems(2) by simp
  with ih idx len show ?case by simp
qed

lemma nunique_all_None: "\<forall>c \<in> set row. c = None \<Longrightarrow> nunique row = 0"
  by (simp add: nunique_def filter_empty_conv)

lemma select_rows_index:
  assumes "k \<in> set (f_index (select_rows P df))"
  shows "\<exists>j. j < length (f_index df) \<and> j < length (f_rows df) \<and> f_index df ! j = k \<and> P (f_rows df ! j)"
proof -
  from assms obtain row where "(k, row) \<in> set (zip (f_index df) (f_rows df))" and "P row"
    by (auto simp: select_rows_def Let_def)
  then show ?thesis by (auto simp: set_zip)
qed

lemma sort_index_set: "set (f_index (sort_index df)) = set (f_index df) \<inter> fst ` set (zip (f_index df) (f_rows df))"
  by (auto simp: sort_index_def Let_def dest: set_zip_leftD)

lemma first_column_index: "first_column df = Inr df' \<Longrightarrow> f_index df' = f_index df"
  by (auto simp: first_column_def split: list.splits)

text \<open>
  Claim C10. Let the report on a file complete. Take a row of the table, given by its
  position \<open>i\<close> among the keys of the first message, whose cell is \<^verbatim>\<open>None\<close> for every
  message (the attribute at that position is an array, or cannot be read, on each of
  them). Its number of distinct values is 0, which is neither 1 nor above 1: the label of
  the row is among the rows of the general overview and among the columns of the
  layer-specific overview in no case. The keys of a message are pairwise distinct.
\<close>

theorem all_null_row_in_neither_section:
  assumes "decode p = Inr (grb0 # rest)"
    and "print_grib_content_report decode (Path p) = Inr r"
    and "distinct (msg_keys grb0)"
    and "i < length (msg_keys grb0)"
    and "\<forall>g \<in> set (grb0 # rest). cell_of g (msg_keys g ! i) = None"
  shows "msg_keys grb0 ! i \<notin> set (f_index (general r))
         \<and> msg_keys grb0 ! i \<notin> set (f_columns (layer_specific r))"
proof -
  let ?df0 = "\<lparr>f_index = msg_keys grb0, f_columns = [] :: nat list,
               f_rows = map (\<lambda>_. []) (msg_keys grb0)\<rparr>"
  let ?k = "msg_keys grb0 ! i"
  have nonempty: "rest \<noteq> []"
    using assms(1,2)
    by (auto simp: print_grib_content_report_def open_grib_def first_of_def)
  then have og: "open_grib decode (Path p) 60 = Inr (Lst (grb0 # rest))"
    using assms(1) by (cases rest) (simp_all add: open_grib_def)
  from assms(2) og obtain df ov where
    fl: "fill (grb0 # rest) 0 ?df0 = Inr df" and
    ov: "first_column (sort_index (select_rows (\<lambda>r. nunique r = 1) df)) = Inr ov" and
    gen: "general r = ov" and
    spec: "layer_specific r = transpose_frame (select_rows (\<lambda>r. nunique r > 1) df)"
    by (auto simp: print_grib_content_report_def first_of_def Let_def split: sum.splits)
  from fill_rows [OF fl] have
    idx: "f_index df = msg_keys grb0" and
    len: "length (f_rows df) = length (msg_keys grb0)" and
    rows: "\<forall>j < length (msg_keys grb0). f_rows df ! j = map (\<lambda>g. column_of g ! j) (grb0 # rest)" and
    collen: "\<forall>g \<in> set (grb0 # rest). length (column_of g) = length (msg_keys grb0)"
    by auto
  have "column_of g ! i = None" if "g \<in> set (grb0 # rest)" for g
  proof -
    from collen that have "i < length (msg_keys g)"
      using assms(4) by (auto simp: column_of_def)
    then have "column_of g ! i = cell_of g (msg_keys g ! i)" by (simp add: column_of_def)
    with assms(5) that show ?thesis by auto
  qed
  then have "f_rows df ! i = map (\<lambda>g. None) (grb0 # rest)"
    using rows assms(4) by simp
  then have nu: "nunique (f_rows df ! i) = 0"
    by (simp add: nunique_all_None)
  have notsel: "?k \<notin> set (f_index (select_rows P df))" if "\<not> P (f_rows df ! i)" for P
  proof
    assume "?k \<in> set (f_index (select_rows P df))"
    from select_rows_index [OF this] obtain j where
      j: "j < length (f_index df)" "f_index df ! j = ?k" "P (f_rows df ! j)" by blast
    with idx assms(3,4) have "j = i" by (simp add: nth_eq_iff_index_eq)
    with j that show False by simp
  qed
  have "?k \<notin> set (f_index (general r))"
    using notsel [of "\<lambda>r. nunique r = 1"] nu gen first_column_index [OF ov] sort_index_set
    by auto
  moreover have "?k \<notin> set (f_columns (layer_specific r))"
    using notsel [of "\<lambda>r. nunique r > 1"] nu spec by (simp add: transpose_frame_def)
  ultimately show ?thesis by simp
qed

theorem all_null_row_in_neither_section_witness:
  "decode_example ''two.grib'' = Inr (layer_tp # [layer_t2m])
   \<and> print_grib_content_report decode_example (Path ''two.grib'') =
       Inr \<lparr>grib_name = Some ''two.grib'', grib_date = None, layer_size = None,
            number_of_layers = 2, datasets = None,
            general = \<lparr>f_index = [''level''], f_columns = [0], f_rows = [[Some (IntV 2)]]\<rparr>,
            layer_specific = \<lparr>f_index = [0, 1], f_columns = [''shortName''],
                               f_rows = [[Some (StrV ''tp'')], [Some (StrV ''t2m'')]]\<rparr>\<rparr>
   \<and> distinct (msg_keys layer_tp)
   \<and> 2 < length (msg_keys layer_tp)
   \<and> msg_keys layer_tp ! 2 = ''values''
   \<and> cell_of layer_tp (msg_keys layer_tp ! 2) = None
   \<and> cell_of layer_t2m (msg_keys layer_t2m ! 2) = None
   \<and> ''values'' \<notin> set [''level''] \<and> ''values'' \<notin> set [''shortName'']"
proof -
  have h1: "decode_example ''two.grib'' = Inr (layer_tp # [layer_t2m])"
    by (simp add: decode_example_def)
  have h2: "print_grib_content_report decode_example (Path ''two.grib'') =
       Inr \<lparr>grib_name = Some ''two.grib'', grib_date = None, layer_size = None,
            number_of_layers = 2, datasets = None,
            general = \<lparr>f_index = [''level''], f_columns = [0], f_rows = [[Some (IntV 2)]]\<rparr>,
            layer_specific = \<lparr>f_index = [0, 1], f_columns = [''shortName''],
                               f_rows = [[Some (StrV ''tp'')], [Some (StrV ''t2m'')]]\<rparr>\<rparr>"
    by (simp add: print_grib_content_report_def open_grib_def decode_example_def first_of_def
        set_column_def column_of_def cell_of_def getitem_def layer_tp_def layer_t2m_def
        header_pair_def select_rows_def sort_index_def transpose_frame_def first_column_def
        nunique_def Let_def)
  have h3: "distinct (msg_keys layer_tp)" by (simp add: layer_tp_def)
  have h4: "2 < length (msg_keys layer_tp)" by (simp add: layer_tp_def)
  have h5: "\<forall>g \<in> set (layer_tp # [layer_t2m]). cell_of g (msg_keys g ! 2) = None"
    by (simp add: cell_of_def getitem_def layer_tp_def layer_t2m_def)
  have k: "msg_keys layer_tp ! 2 = ''values''" by (simp add: layer_tp_def)
  from all_null_row_in_neither_section [OF h1 h2 h3 h4 h5] k
  have "''values'' \<notin> set [''level''] \<and> ''values'' \<notin> set [''shortName'']"
    by simp
  moreover have "cell_of layer_tp (msg_keys layer_tp ! 2) = None"
    and "cell_of layer_t2m (msg_keys layer_t2m ! 2) = None"
    using h5 by simp_all
  ultimately show ?thesis using h1 h2 h3 h4 k by blast
qed

section \<open>Properties of the temporal resolver\<close>

lemma below_ten: "k < 10 \<Longrightarrow> k \<in> {0, 1, 2, 3, 4, 5, 6, 7, 8, 9 :: nat}"
  by auto

lemma digit_char_is_digit: "k < 10 \<Longrightarrow> is_digit (digit_char k)"
  by (drule below_ten) (auto simp: is_digit_def digit_char_def)

lemma digit_val_digit_char: "k < 10 \<Longrightarrow> digit_val (digit_char k) = k"
  by (drule below_ten) (auto simp: digit_val_def digit_char_def)

lemma of_char_digit_char: "k < 10 \<Longrightarrow> of_char (digit_char k) = 48 + k"
  by (drule below_ten) (auto simp: digit_char_def)

lemma in_range_digit_char:
  "k < 10 \<Longrightarrow> in_range lo hi (digit_char k) = ((of_char lo :: nat) \<le> 48 + k \<and> 48 + k \<le> (of_char hi :: nat))"
  by (simp add: in_range_def of_char_digit_char)

lemma digit_char_eq:
  "k < 10 \<Longrightarrow> (digit_char k = CHR ''0'') = (k = 0)"
  "k < 10 \<Longrightarrow> (digit_char k = CHR ''1'') = (k = 1)"
  "k < 10 \<Longrightarrow> (digit_char k = CHR ''2'') = (k = 2)"
  "k < 10 \<Longrightarrow> (digit_char k = CHR ''3'') = (k = 3)"
  "k < 10 \<Longrightarrow> (digit_char k = CHR '' '') = False"
  "k < 10 \<Longrightarrow> (digit_char k = CHR ''-'') = False"
  "k < 10 \<Longrightarrow> (digit_char k = CHR ''+'') = False"
  by (drule below_ten, auto simp: digit_char_def)+

lemma show_nat_step: "10 \<le> n \<Longrightarrow> show_nat n = show_nat (n div 10) @ [digit_char (n mod 10)]"
  by (subst show_nat.simps) simp


lemma div_tens:
  "n div 10 div 10 = n div 100" "n div 10 div 10 div 10 = n div 1000"
  "n div 100 div 10 = n div 1000"
  for n :: nat
  by (simp_all add: div_mult2_eq [symmetric])

lemma digit_char_0: "CHR ''0'' = digit_char 0"
  by (simp add: digit_char_def)

lemma replicate_zeros:
  "replicate 3 c = [c, c, c]" "replicate 2 c = [c, c]" "replicate 1 c = [c]"
  by (simp_all add: numeral_3_eq_3 numeral_2_eq_2)

lemma show_nat_digits4: "1000 \<le> n \<Longrightarrow> n < 10000 \<Longrightarrow> show_nat n = digits4 n"
  by (simp add: show_nat_step show_nat_digit digits4_def div_tens)

lemma zfill_digits4: "n < 10000 \<Longrightarrow> zfill 4 (show_nat n) = digits4 n"
proof -
  assume n: "n < 10000"
  consider "n < 10" | "10 \<le> n" "n < 100" | "100 \<le> n" "n < 1000" | "1000 \<le> n"
    by linarith
  then show ?thesis
  proof cases
    case 1
    then show ?thesis
      by (simp add: show_nat_digit zfill_def digits4_def digit_char_eq replicate_zeros digit_char_0)
  next
    case 2
    then show ?thesis
      by (simp add: show_nat_step show_nat_digit zfill_def digits4_def digit_char_eq replicate_zeros digit_char_0)
  next
    case 3
    then show ?thesis
      by (simp add: show_nat_step show_nat_digit zfill_def digits4_def digit_char_eq replicate_zeros digit_char_0 div_tens)
  next
    case 4
    with n show ?thesis
      by (simp add: show_nat_digits4 zfill_def digits4_def)
  qed
qed

lemma mod_hundred: "(a * 100 + b) mod 10 = b mod 10" for a b :: nat
proof -
  have "a * 100 = (a * 10) * 10" by simp
  then show ?thesis by (metis mod_mult_self3)
qed


lemma show_nat_two_more:
  assumes "0 < a" and "b < 100"
  shows "show_nat (a * 100 + b) = show_nat a @ digits2 b"
proof -
  have 1: "(a * 100 + b) div 10 = a * 10 + b div 10" "(a * 100 + b) mod 10 = b mod 10"
    by (simp_all add: mod_hundred)
  have 2: "(a * 10 + b div 10) div 10 = a" "(a * 10 + b div 10) mod 10 = b div 10"
    using assms(2) by simp_all
  have "show_nat (a * 100 + b) = show_nat (a * 10 + b div 10) @ [digit_char (b mod 10)]"
    using assms(1) 1 by (simp add: show_nat_step)
  also have "show_nat (a * 10 + b div 10) = show_nat a @ [digit_char (b div 10)]"
    using assms(1) 2 by (simp add: show_nat_step)
  finally show ?thesis by (simp add: digits2_def)
qed

lemma show_nat_date:
  assumes "1000 \<le> y" and "y < 10000" and "mo < 100" and "dd < 100"
  shows "show_nat (y * 10000 + mo * 100 + dd) = digits4 y @ digits2 mo @ digits2 dd"
proof -
  have "y * 10000 + mo * 100 + dd = (y * 100 + mo) * 100 + dd" by simp
  moreover have "show_nat ((y * 100 + mo) * 100 + dd) = show_nat (y * 100 + mo) @ digits2 dd"
    using assms by (intro show_nat_two_more) simp_all
  ultimately have "show_nat (y * 10000 + mo * 100 + dd) = show_nat (y * 100 + mo) @ digits2 dd"
    by (simp only:)
  also have "show_nat (y * 100 + mo) = show_nat y @ digits2 mo"
    using assms show_nat_two_more [of y mo] by simp
  finally show ?thesis using assms by (simp add: show_nat_digits4)
qed

lemma digits4_time:
  assumes "h < 100" and "mi < 100"
  shows "digits4 (h * 100 + mi) = digits2 h @ digits2 mi"
proof -
  have "(h * 100 + mi) div 100 = h"
    using assms(2) by simp
  then have "(h * 100 + mi) div 1000 = h div 10"
    by (simp add: div_tens(3) [symmetric])
  moreover have "(h * 100 + mi) div 10 = h * 10 + mi div 10"
    by simp
  then have "(h * 100 + mi) div 10 mod 10 = mi div 10"
    using assms(2) by simp
  ultimately show ?thesis
    using assms by (simp add: digits4_def digits2_def mod_hundred)
qed

lemma recompose:
  "q1 = 10 * q2 + r1 \<Longrightarrow> q2 = 10 * q3 + r2 \<Longrightarrow> y = 10 * q1 + r0 \<Longrightarrow>
   1000 * q3 + 100 * r2 + 10 * r1 + r0 = y" for y :: nat
  by simp

lemma digits4_value:
  fixes y :: nat
  assumes "y < 10000"
  shows "1000 * (y div 1000) + 100 * (y div 100 mod 10) + 10 * (y div 10 mod 10) + y mod 10 = y"
proof -
  have a: "y = 10 * (y div 10) + y mod 10" by simp
  have b: "y div 10 = 10 * (y div 100) + y div 10 mod 10"
    using mult_div_mod_eq [of 10 "y div 10"] by (simp add: div_mult2_eq [symmetric])
  have c: "y div 100 = 10 * (y div 1000) + y div 100 mod 10"
    using mult_div_mod_eq [of 10 "y div 100"] by (simp add: div_mult2_eq [symmetric])
  show ?thesis by (rule recompose [OF b c a])
qed

lemma rx_Y_digits4: "y < 10000 \<Longrightarrow> rx_Y (digits4 y @ r) = [(y, r)]"
  by (simp add: rx_Y_def digits4_def digit_char_is_digit digit_val_digit_char digits4_value)

lemma two_digit_chars:
  "a < 10 \<Longrightarrow> b < 10 \<Longrightarrow>
   two p q (digit_char a # digit_char b # r) =
     (if p (digit_char a) \<and> q (digit_char b) then [(10 * a + b, r)] else [])"
  by (simp add: two_def digit_val_digit_char)

lemma one_digit_char:
  "a < 10 \<Longrightarrow> one p (digit_char a # r) = (if p (digit_char a) then [(a, r)] else [])"
  by (simp add: one_def digit_val_digit_char)

lemma rx_m_digits2:
  assumes "1 \<le> m" and "m \<le> 12"
  shows "\<exists>tl. rx_m (digits2 m @ r) = (m, r) # tl"
proof -
  have ab: "m div 10 < 10" "m mod 10 < 10" "10 * (m div 10) + m mod 10 = m"
    using assms by simp_all
  have "m < 10 \<or> m = 10 \<or> m = 11 \<or> m = 12"
    using assms by linarith
  then consider "m div 10 = 0" "1 \<le> m mod 10" | "m div 10 = 1" "m mod 10 \<le> 2"
    using assms by fastforce
  then show ?thesis
  proof cases
    case 1
    with ab show ?thesis
      by (simp add: rx_m_def digits2_def two_digit_chars one_digit_char digit_char_eq
          in_range_digit_char del: One_nat_def)
  next
    case 2
    with ab show ?thesis
      by (simp add: rx_m_def digits2_def two_digit_chars one_digit_char digit_char_eq
          in_range_digit_char del: One_nat_def)
  qed
qed

lemma rx_d_digits2:
  assumes "1 \<le> d" and "d \<le> 31"
  shows "\<exists>tl. rx_d (digits2 d @ r) = (d, r) # tl"
proof -
  have ab: "d div 10 < 10" "d mod 10 < 10" "10 * (d div 10) + d mod 10 = d"
    using assms by simp_all
  have "d < 10 \<or> (10 \<le> d \<and> d < 20) \<or> (20 \<le> d \<and> d < 30) \<or> d = 30 \<or> d = 31"
    using assms by linarith
  then consider "d div 10 = 0" "1 \<le> d mod 10" | "d div 10 = 1" | "d div 10 = 2"
    | "d div 10 = 3" "d mod 10 \<le> 1"
    using assms by fastforce
  then show ?thesis
  proof cases
    case 1
    with ab show ?thesis
      by (simp add: rx_d_def digits2_def two_digit_chars one_digit_char digit_char_eq
          in_range_digit_char digit_char_is_digit del: One_nat_def)
  next
    case 2
    with ab show ?thesis
      by (simp add: rx_d_def digits2_def two_digit_chars one_digit_char digit_char_eq
          in_range_digit_char digit_char_is_digit del: One_nat_def)
  next
    case 3
    with ab show ?thesis
      by (simp add: rx_d_def digits2_def two_digit_chars one_digit_char digit_char_eq
          in_range_digit_char digit_char_is_digit del: One_nat_def)
  next
    case 4
    with ab show ?thesis
      by (simp add: rx_d_def digits2_def two_digit_chars one_digit_char digit_char_eq
          in_range_digit_char digit_char_is_digit del: One_nat_def)
  qed
qed

lemma rx_H_digits2:
  assumes "h \<le> 23"
  shows "\<exists>tl. rx_H (digits2 h @ r) = (h, r) # tl"
proof -
  have ab: "h div 10 < 10" "h mod 10 < 10" "10 * (h div 10) + h mod 10 = h"
    using assms by simp_all
  have "h < 10 \<or> (10 \<le> h \<and> h < 20) \<or> h = 20 \<or> h = 21 \<or> h = 22 \<or> h = 23"
    using assms by linarith
  then consider "h div 10 = 0" | "h div 10 = 1" | "h div 10 = 2" "h mod 10 \<le> 3"
    by fastforce
  then show ?thesis
  proof cases
    case 1
    with ab show ?thesis
      by (simp add: rx_H_def digits2_def two_digit_chars one_digit_char digit_char_eq
          in_range_digit_char digit_char_is_digit del: One_nat_def)
  next
    case 2
    with ab show ?thesis
      by (simp add: rx_H_def digits2_def two_digit_chars one_digit_char digit_char_eq
          in_range_digit_char digit_char_is_digit del: One_nat_def)
  next
    case 3
    with ab show ?thesis
      by (simp add: rx_H_def digits2_def two_digit_chars one_digit_char digit_char_eq
          in_range_digit_char digit_char_is_digit del: One_nat_def)
  qed
qed

lemma rx_M_digits2:
  assumes "mi \<le> 59"
  shows "\<exists>tl. rx_M (digits2 mi @ r) = (mi, r) # tl"
proof -
  have ab: "mi div 10 < 10" "mi mod 10 < 10" "10 * (mi div 10) + mi mod 10 = mi"
    "mi div 10 \<le> 5"
    using assms by simp_all
  then show ?thesis
    by (simp add: rx_M_def digits2_def two_digit_chars one_digit_char
        in_range_digit_char digit_char_is_digit del: One_nat_def)
qed

lemma matches_first:
  assumes "rx_Y s = [(y, r1)]" and "rx_m r1 = (m, r2) # t2" and "rx_d r2 = (d, r3) # t3"
    and "rx_H r3 = (h, r4) # t4" and "rx_M r4 = (mi, r5) # t5"
  shows "\<exists>tl. matches_YmdHM s = ((y, m, d, h, mi), r5) # tl"
  using assms by (simp add: matches_YmdHM_def)

lemma days_in_month_le:
  assumes "1 \<le> m" and "m \<le> 12"
  shows "days_in_month y m \<le> 31"
proof -
  have "\<forall>x \<in> set DAYS_IN_MONTH. x \<le> 31"
    by (simp add: DAYS_IN_MONTH_def)
  moreover have "m < length DAYS_IN_MONTH"
    using assms(2) by (simp add: DAYS_IN_MONTH_def)
  ultimately have "DAYS_IN_MONTH ! m \<le> 31"
    using nth_mem by blast
  then show ?thesis
    by (simp add: days_in_month_def)
qed

lemma strptime_twelve_digits:
  assumes "1 \<le> y" and "y < 10000" and "1 \<le> m" and "m \<le> 12" and "1 \<le> d"
    and "int d \<le> days_in_month (int y) m" and "h \<le> 23" and "mi \<le> 59"
  shows "strptime_YmdHM (digits4 y @ digits2 m @ digits2 d @ digits2 h @ digits2 mi) =
           Inr \<lparr>year = y, month = m, day = d, hour = h, minute = mi\<rparr>"
proof -
  have "days_in_month (int y) m \<le> 31"
    using assms(3,4) by (rule days_in_month_le)
  with assms(6) have d31: "d \<le> 31" by simp
  obtain t2 where 2: "rx_m (digits2 m @ digits2 d @ digits2 h @ digits2 mi) =
      (m, digits2 d @ digits2 h @ digits2 mi) # t2"
    using rx_m_digits2 [OF assms(3,4)] by blast
  obtain t3 where 3: "rx_d (digits2 d @ digits2 h @ digits2 mi) = (d, digits2 h @ digits2 mi) # t3"
    using rx_d_digits2 [OF assms(5) d31] by blast
  obtain t4 where 4: "rx_H (digits2 h @ digits2 mi) = (h, digits2 mi) # t4"
    using rx_H_digits2 [OF assms(7)] by blast
  obtain t5 where 5: "rx_M (digits2 mi) = (mi, []) # t5"
    using rx_M_digits2 [OF assms(8), of "[]"] by auto
  obtain tl where "matches_YmdHM (digits4 y @ digits2 m @ digits2 d @ digits2 h @ digits2 mi) =
      ((y, m, d, h, mi), []) # tl"
    using matches_first [OF rx_Y_digits4 [OF assms(2)] 2 3 4 5] by blast
  then show ?thesis
    using assms(1,6) by (simp add: strptime_YmdHM_def)
qed

lemma simulation_datetime_of_fields:
  assumes "getitem grb ''dataDate'' = Inr (IntV (int (y * 10000 + m * 100 + d)))"
    and "getitem grb ''dataTime'' = Inr (IntV (int (h * 100 + mi)))"
    and "1000 \<le> y" and "y < 10000" and "1 \<le> m" and "m \<le> 12" and "1 \<le> d"
    and "int d \<le> days_in_month (int y) m" and "h \<le> 23" and "mi \<le> 59"
  shows "get_grib_layer_simulation_datetime grb =
           Inr \<lparr>year = y, month = m, day = d, hour = h, minute = mi\<rparr>"
proof -
  have "days_in_month (int y) m \<le> 31"
    using assms(5,6) by (rule days_in_month_le)
  with assms(8) have d31: "d \<le> 31" by simp
  have date: "show_int (int (y * 10000 + m * 100 + d)) = digits4 y @ digits2 m @ digits2 d"
    using assms(3,4,6) d31 by (simp add: show_int_def show_nat_date del: of_nat_add of_nat_mult)
  have "h * 100 + mi < 10000" using assms(9,10) by simp
  then have time: "zfill 4 (show_int (int (h * 100 + mi))) = digits2 h @ digits2 mi"
    using assms(9,10)
    by (simp add: show_int_def zfill_digits4 digits4_time del: of_nat_add of_nat_mult)
  have y1: "1 \<le> y" using assms(3) by simp
  show ?thesis
    using assms(1,2) strptime_twelve_digits [OF y1 assms(4,5,6,7,8,9,10)]
    by (simp add: get_grib_layer_simulation_datetime_def date time
        del: of_nat_add of_nat_mult)
qed

lemmas rx_defs = matches_YmdHM_def rx_Y_def rx_m_def rx_d_def rx_H_def rx_M_def two_def one_def
  is_digit_def digit_val_def in_range_def

lemma example_simulation_string:
  "strptime_YmdHM (show_int 20170104 @ zfill 4 (show_int 600)) =
     Inr \<lparr>year = 2017, month = 1, day = 4, hour = 6, minute = 0\<rparr>"
proof -
  have "show_int 20170104 = ''20170104''"
    by (simp add: show_int_def show_nat.simps digit_char_def)
  moreover have "zfill 4 (show_int 600) = ''0600''"
    by (simp add: zfill_def show_int_def show_nat.simps digit_char_def)
  moreover have "strptime_YmdHM ''201701040600'' =
      Inr \<lparr>year = 2017, month = 1, day = 4, hour = 6, minute = 0\<rparr>"
    by (simp add: strptime_YmdHM_def rx_defs days_in_month_def DAYS_IN_MONTH_def is_leap_def)
  ultimately show ?thesis by simp
qed

lemma example_validity:
  "add_minutes \<lparr>year = 2017, month = 1, day = 4, hour = 6, minute = 0\<rparr> 180 =
     Inr \<lparr>year = 2017, month = 1, day = 4, hour = 9, minute = 0\<rparr>"
  by (simp add: add_minutes_def ymd2ord_def ord2ymd_def month_day_def days_before_year_def
      days_before_month_def DAYS_BEFORE_MONTH_def DAYS_IN_MONTH_def is_leap_def Let_def)

lemma days_before_year_parts:
  fixes a b c e :: int
  assumes "0 \<le> b" "b \<le> 3" "0 \<le> c" "c \<le> 24" "0 \<le> e" "e \<le> 3"
  shows "days_before_year (400 * a + 100 * b + 4 * c + e + 1) =
           146097 * a + 36524 * b + 1461 * c + 365 * e"
proof -
  let ?x = "400 * a + 100 * b + 4 * c + e"
  have d4: "?x div 4 = 100 * a + 25 * b + c"
    using assms by (intro int_div_pos_eq [where r = e]) simp_all
  have d100: "?x div 100 = 4 * a + b"
    using assms by (intro int_div_pos_eq [where r = "4 * c + e"]) simp_all
  have d400: "?x div 400 = a"
    using assms by (intro int_div_pos_eq [where r = "100 * b + 4 * c + e"]) simp_all
  show ?thesis
    by (simp add: days_before_year_def d4 d100 d400)
qed

lemma is_leap_parts:
  fixes a b c e :: int
  assumes "0 \<le> b" "b \<le> 3" "0 \<le> c" "c \<le> 24" "0 \<le> e" "e \<le> 3"
  shows "is_leap (400 * a + 100 * b + 4 * c + e + 1) = (e = 3 \<and> (c \<noteq> 24 \<or> b = 3))"
proof (cases "e = 3")
  case False
  let ?y = "400 * a + 100 * b + 4 * c + e + 1"
  have "?y mod 4 = e + 1"
    using assms False by (intro int_mod_pos_eq [where q = "100 * a + 25 * b + c"]) simp_all
  with False assms show ?thesis by (simp add: is_leap_def)
next
  case True
  let ?y = "400 * a + 100 * b + 4 * c + e + 1"
  have m4: "?y mod 4 = 0"
    using True by (intro int_mod_pos_eq [where q = "100 * a + 25 * b + c + 1"]) simp_all
  show ?thesis
  proof (cases "c = 24")
    case c24: True
    have m100: "?y mod 100 = 0"
      using True c24 by (intro int_mod_pos_eq [where q = "4 * a + b + 1"]) simp_all
    show ?thesis
    proof (cases "b = 3")
      case b3: True
      have "?y mod 400 = 0"
        using True c24 b3 by (intro int_mod_pos_eq [where q = "a + 1"]) simp_all
      with True c24 b3 m4 m100 show ?thesis by (simp add: is_leap_def)
    next
      case b3: False
      have "?y mod 400 = 100 * (b + 1)"
        using True c24 b3 assms by (intro int_mod_pos_eq [where q = a]) simp_all
      with True c24 b3 m4 m100 assms show ?thesis by (simp add: is_leap_def)
    qed
  next
    case c24: False
    have "?y mod 100 = 4 * (c + 1)"
      using True c24 assms by (intro int_mod_pos_eq [where q = "4 * a + b"]) simp_all
    with True c24 m4 assms show ?thesis by (simp add: is_leap_def)
  qed
qed

lemma month_day_sound:
  assumes "0 \<le> n" and "n \<le> 364" and "month_day leapyear n = (m, d)"
  shows "DAYS_BEFORE_MONTH ! m + (if m > 2 \<and> leapyear then 1 else 0) + d = n + 1
         \<and> 1 \<le> m \<and> m \<le> 12 \<and> 1 \<le> d
         \<and> d \<le> DAYS_IN_MONTH ! m + (if m = 2 \<and> leapyear then 1 else 0)"
proof -
  define k where "k = (n + 50) div 32"
  have "n + 50 = 32 * k + (n + 50) mod 32"
    unfolding k_def by simp
  moreover have "0 \<le> (n + 50) mod 32" "(n + 50) mod 32 < 32"
    by simp_all
  ultimately have k: "32 * k \<le> n + 50" "n + 50 < 32 * k + 32"
    by linarith+
  with assms(1,2) have "1 \<le> k" "k \<le> 12" by linarith+
  then have "k = 1 \<or> k = 2 \<or> k = 3 \<or> k = 4 \<or> k = 5 \<or> k = 6 \<or> k = 7 \<or> k = 8
             \<or> k = 9 \<or> k = 10 \<or> k = 11 \<or> k = 12"
    by presburger
  then show ?thesis
    using k assms
    by (elim disjE)
       (auto simp: month_day_def Let_def k_def [symmetric] DAYS_BEFORE_MONTH_def DAYS_IN_MONTH_def
             split: if_splits)
qed

lemma days_in_month_alt:
  "days_in_month y m = DAYS_IN_MONTH ! m + (if m = 2 \<and> is_leap y then 1 else 0)"
  by (simp add: days_in_month_def DAYS_IN_MONTH_def)

lemma ord2ymd_sound:
  assumes "1 \<le> n" and "ord2ymd n = (y, m, d)"
  shows "ymd2ord y m d = n \<and> 1 \<le> y \<and> 1 \<le> m \<and> m \<le> 12 \<and> 1 \<le> d
         \<and> d \<le> days_in_month y m"
proof -
  define n400 where "n400 = (n - 1) div 146097"
  define r400 where "r400 = (n - 1) mod 146097"
  define n100 where "n100 = r400 div 36524"
  define r100 where "r100 = r400 mod 36524"
  define n4 where "n4 = r100 div 1461"
  define r4 where "r4 = r100 mod 1461"
  define n1 where "n1 = r4 div 365"
  define r1 where "r1 = r4 mod 365"
  have e400: "n - 1 = 146097 * n400 + r400" and b400: "0 \<le> r400" "r400 < 146097"
    unfolding n400_def r400_def by simp_all
  have e100: "r400 = 36524 * n100 + r100" and b100: "0 \<le> r100" "r100 < 36524"
    unfolding n100_def r100_def by simp_all
  have e4: "r100 = 1461 * n4 + r4" and b4: "0 \<le> r4" "r4 < 1461"
    unfolding n4_def r4_def by simp_all
  have e1: "r4 = 365 * n1 + r1" and b1: "0 \<le> r1" "r1 < 365"
    unfolding n1_def r1_def by simp_all
  have q400: "0 \<le> n400"
    using assms(1) unfolding n400_def by (simp add: pos_imp_zdiv_nonneg_iff)
  have q100: "0 \<le> n100" "n100 \<le> 4"
    using e100 b100 b400 by linarith+
  have q4: "0 \<le> n4" "n4 \<le> 24"
    using e4 b4 b100 by linarith+
  have q1: "0 \<le> n1" "n1 \<le> 4"
    using e1 b1 b4 by linarith+
  have unfolded: "ord2ymd n =
      (if n1 = 4 \<or> n100 = 4 then (n400 * 400 + 1 + n100 * 100 + n4 * 4 + n1 - 1, 12, 31)
       else case month_day (n1 = 3 \<and> (n4 \<noteq> 24 \<or> n100 = 3)) r1 of
              (m, d) \<Rightarrow> (n400 * 400 + 1 + n100 * 100 + n4 * 4 + n1, m, d))"
    by (simp add: ord2ymd_def Let_def n400_def r400_def n100_def r100_def n4_def r4_def
        n1_def r1_def)
  show ?thesis
  proof (cases "n100 = 4")
    case True
    then have z: "r100 = 0" "n4 = 0" "r4 = 0" "n1 = 0" "r1 = 0"
      using e100 b100 b400 e4 b4 e1 b1 q4 q1 by linarith+
    have y: "y = 400 * n400 + 100 * 3 + 4 * 24 + 3 + 1" and m: "m = 12" and d: "d = 31"
      using assms(2) unfolded True z by simp_all
    have dby: "days_before_year y = 146097 * n400 + 36524 * 3 + 1461 * 24 + 365 * 3"
      unfolding y by (rule days_before_year_parts) simp_all
    have leap: "is_leap y"
      unfolding y by (subst is_leap_parts) simp_all
    have "n = 146097 * n400 + 146097"
      using e400 e100 True z by linarith
    then show ?thesis
      using dby leap m d q400 y
      by (simp add: ymd2ord_def days_before_month_def days_in_month_def
          DAYS_BEFORE_MONTH_def DAYS_IN_MONTH_def)
  next
    case n100: False
    with q100 have b: "n100 \<le> 3" by simp
    show ?thesis
    proof (cases "n1 = 4")
      case True
      then have z: "r1 = 0" "r4 = 1460"
        using e1 b1 b4 by linarith+
      have c: "n4 \<le> 23"
        using e4 b100 z by linarith
      have y: "y = 400 * n400 + 100 * n100 + 4 * n4 + 3 + 1" and m: "m = 12" and d: "d = 31"
        using assms(2) unfolded True by simp_all
      have dby: "days_before_year y = 146097 * n400 + 36524 * n100 + 1461 * n4 + 365 * 3"
        unfolding y using q100 b q4 by (intro days_before_year_parts) simp_all
      have leap: "is_leap y"
        unfolding y using q100 b q4 c by (subst is_leap_parts) simp_all
      have "n = 146097 * n400 + 36524 * n100 + 1461 * n4 + 1461"
        using e400 e100 e4 z by linarith
      then show ?thesis
        using dby leap m d q400 q100 q4 y
        by (simp add: ymd2ord_def days_before_month_def days_in_month_def
            DAYS_BEFORE_MONTH_def DAYS_IN_MONTH_def)
    next
      case False
      with q1 have e: "n1 \<le> 3" by simp
      let ?leap = "n1 = 3 \<and> (n4 \<noteq> 24 \<or> n100 = 3)"
      from assms(2) unfolded n100 False have
        md: "month_day ?leap r1 = (m, d)" and
        y: "y = 400 * n400 + 100 * n100 + 4 * n4 + n1 + 1"
        by (auto split: prod.splits)
      have dby: "days_before_year y = 146097 * n400 + 36524 * n100 + 1461 * n4 + 365 * n1"
        unfolding y using q100 b q4 q1 e by (intro days_before_year_parts) simp_all
      have leap: "is_leap y = ?leap"
        unfolding y using q100 b q4 q1 e by (intro is_leap_parts) simp_all
      have r1: "r1 \<le> 364" using b1 by simp
      note ms = month_day_sound [OF b1(1) r1 md]
      have "n = 146097 * n400 + 36524 * n100 + 1461 * n4 + 365 * n1 + r1 + 1"
        using e400 e100 e4 e1 by linarith
      moreover have "1 \<le> y"
        using y q400 q100 q4 q1 by simp
      ultimately show ?thesis
        using dby ms
        by (simp add: ymd2ord_def days_before_month_def days_in_month_alt leap)
    qed
  qed
qed

lemma add_minutes_sound:
  assumes "add_minutes dt n = Inr dt'"
  shows "minute_number dt' = minute_number dt + n
         \<and> 1 \<le> year dt' \<and> 1 \<le> month dt' \<and> month dt' \<le> 12 \<and> 1 \<le> day dt'
         \<and> int (day dt') \<le> days_in_month (int (year dt')) (month dt')
         \<and> hour dt' \<le> 23 \<and> minute dt' \<le> 59"
proof -
  define total where "total = minute_number dt + n"
  define days where "days = total div 1440"
  define rem where "rem = total mod 1440"
  obtain y m d where o: "ord2ymd days = (y, m, d)" by (cases "ord2ymd days") auto
  have unfolded: "add_minutes dt n =
      (if 0 < days \<and> days \<le> 3652059
       then Inr \<lparr>year = nat y, month = m, day = nat d,
                 hour = nat (rem div 60), minute = nat (rem mod 60)\<rparr>
       else Inl OverflowError)"
    using o
    by (simp add: add_minutes_def Let_def minute_number_def total_def days_def rem_def)
  from assms unfolded have range: "0 < days \<and> days \<le> 3652059"
    by (cases "0 < days \<and> days \<le> 3652059") simp_all
  with assms unfolded have dt': "dt' = \<lparr>year = nat y, month = m, day = nat d,
                     hour = nat (rem div 60), minute = nat (rem mod 60)\<rparr>"
    by simp
  from range have "1 \<le> days" by simp
  from ord2ymd_sound [OF this o] have
    ord: "ymd2ord y m d = days" and y: "1 \<le> y" and m: "1 \<le> m" "m \<le> 12"
    and d: "1 \<le> d" "d \<le> days_in_month y m"
    by simp_all
  have rem: "0 \<le> rem" "rem < 1440" unfolding rem_def by simp_all
  then have h: "0 \<le> rem div 60" "rem div 60 \<le> 23" "0 \<le> rem mod 60" "rem mod 60 \<le> 59"
    by simp_all
  have fields: "int (year dt') = y" "month dt' = m" "int (day dt') = d"
    "int (hour dt') = rem div 60" "int (minute dt') = rem mod 60"
    using y d h by (simp_all add: dt')
  have "minute_number dt' = days * 1440 + (rem div 60 * 60 + rem mod 60)"
    by (simp only: minute_number_def fields ord add.assoc)
  also have "rem div 60 * 60 + rem mod 60 = rem" by simp
  also have "days * 1440 + rem = total"
    unfolding days_def rem_def by simp
  finally have 1: "minute_number dt' = minute_number dt + n"
    by (simp only: total_def)
  have 2: "1 \<le> year dt'" "1 \<le> day dt'" "hour dt' \<le> 23" "minute dt' \<le> 59"
    using fields y d h by linarith+
  have 3: "int (day dt') \<le> days_in_month (int (year dt')) (month dt')"
    using d(2) by (simp only: fields)
  from 1 2 3 m fields(2) show ?thesis by simp
qed

lemma add_minutes_total:
  assumes "1440 \<le> minute_number dt + n" and "minute_number dt + n < 1440 * 3652060"
  shows "\<exists>dt'. add_minutes dt n = Inr dt'"
proof -
  define total where "total = minute_number dt + n"
  have "total = 1440 * (total div 1440) + total mod 1440" by simp
  moreover have "0 \<le> total mod 1440" "total mod 1440 < 1440" by simp_all
  ultimately have "0 < total div 1440" "total div 1440 \<le> 3652059"
    using assms unfolding total_def [symmetric] by linarith+
  then show ?thesis
    unfolding total_def
    by (auto simp: add_minutes_def Let_def minute_number_def split: prod.splits)
qed

text \<open>
  The calendar is a bijection: a year has 365 or 366 days, its months follow one another
  without a gap, so two dates in range with the same day number are the same date, and two
  dates and times in range with the same minute number are the same.
\<close>

lemma div_step:
  fixes y k :: int
  assumes "0 < k"
  shows "y div k = (y - 1) div k + (if y mod k = 0 then 1 else 0)"
proof -
  define q where "q = (y - 1) div k"
  define r where "r = (y - 1) mod k"
  have "y - 1 = k * q + r" unfolding q_def r_def by simp
  then have y: "y = k * q + (r + 1)" by simp
  have r: "0 \<le> r" "r < k"
    using assms unfolding r_def by simp_all
  show ?thesis
  proof (cases "r + 1 = k")
    case True
    then have "y = k * (q + 1) + 0" using y by (simp add: algebra_simps)
    then have "y div k = q + 1" "y mod k = 0"
      using assms int_div_pos_eq [of y k "q + 1" 0] int_mod_pos_eq [of y k "q + 1" 0] by simp_all
    then show ?thesis by (simp add: q_def)
  next
    case False
    with r have "r + 1 < k" by simp
    with y r have "y div k = q" "y mod k = r + 1"
      using int_div_pos_eq [of y k q "r + 1"] int_mod_pos_eq [of y k q "r + 1"] by simp_all
    with r show ?thesis by (simp add: q_def)
  qed
qed

lemma days_before_year_step:
  "days_before_year (y + 1) = days_before_year y + 365 + (if is_leap y then 1 else 0)"
proof -
  have d4: "y div 4 = (y - 1) div 4 + (if y mod 4 = 0 then 1 else 0)"
    by (rule div_step) simp
  have d100: "y div 100 = (y - 1) div 100 + (if y mod 100 = 0 then 1 else 0)"
    by (rule div_step) simp
  have d400: "y div 400 = (y - 1) div 400 + (if y mod 400 = 0 then 1 else 0)"
    by (rule div_step) simp
  have a: "y mod 4 = 0" if "y mod 100 = 0"
  proof -
    from that have "100 dvd y" by (simp add: mod_eq_0_iff_dvd)
    moreover have "(4::int) dvd 100" by simp
    ultimately have "4 dvd y" by (rule dvd_trans [rotated])
    then show ?thesis by (simp add: mod_eq_0_iff_dvd)
  qed
  have b: "y mod 100 = 0" if "y mod 400 = 0"
  proof -
    from that have "400 dvd y" by (simp add: mod_eq_0_iff_dvd)
    moreover have "(100::int) dvd 400" by simp
    ultimately have "100 dvd y" by (rule dvd_trans [rotated])
    then show ?thesis by (simp add: mod_eq_0_iff_dvd)
  qed
  have "days_before_year (y + 1) = y * 365 + y div 4 - y div 100 + y div 400"
    by (simp add: days_before_year_def)
  also have "\<dots> = days_before_year y + 365 + ((if y mod 4 = 0 then 1 else 0)
       - (if y mod 100 = 0 then 1 else 0) + (if y mod 400 = 0 then 1 else 0))"
    unfolding days_before_year_def by (subst d4, subst d100, subst d400) (simp add: algebra_simps)
  also have "(if y mod 4 = 0 then 1 else 0) - (if y mod 100 = 0 then 1 else 0)
       + (if y mod 400 = 0 then 1 else 0) = (if is_leap y then 1 else (0::int))"
    using a b by (cases "y mod 4 = 0"; cases "y mod 100 = 0"; cases "y mod 400 = 0")
      (simp_all add: is_leap_def)
  finally show ?thesis .
qed

lemma days_before_year_mono: "y \<le> y' \<Longrightarrow> days_before_year y \<le> days_before_year y'"
proof (induction y' rule: int_ge_induct)
  case base
  show ?case by simp
next
  case (step i)
  have "days_before_year (i + 1) \<ge> days_before_year i"
    by (simp add: days_before_year_step)
  with step show ?case by simp
qed
lemma month_cases:
  fixes m :: nat
  assumes "1 \<le> m" and "m \<le> 12"
  shows "m = 1 \<or> m = 2 \<or> m = 3 \<or> m = 4 \<or> m = 5 \<or> m = 6 \<or> m = 7 \<or> m = 8
         \<or> m = 9 \<or> m = 10 \<or> m = 11 \<or> m = 12"
  using assms by presburger

text \<open>The months of a year follow one another without a gap.\<close>

lemma days_before_month_Suc:
  assumes "1 \<le> m" and "m \<le> 11"
  shows "days_before_month y (Suc m) = days_before_month y m + days_in_month y m"
proof -
  from assms have "1 \<le> m" "m \<le> 12" by simp_all
  from month_cases [OF this] assms(2) show ?thesis
    by (elim disjE)
       (simp_all add: days_before_month_def days_in_month_def DAYS_BEFORE_MONTH_def
          DAYS_IN_MONTH_def eval_nat_numeral)
qed

lemma days_in_month_pos:
  assumes "1 \<le> m" and "m \<le> 12"
  shows "28 \<le> days_in_month y m"
  using month_cases [OF assms]
  by (elim disjE) (simp_all add: days_in_month_def DAYS_IN_MONTH_def)

lemma days_before_month_mono:
  assumes "1 \<le> m" and "m \<le> m'" and "m' \<le> 12"
  shows "days_before_month y m \<le> days_before_month y m'"
  using assms(2,1,3)
proof (induction m' rule: dec_induct)
  case base
  show ?case by simp
next
  case (step n)
  then have "days_before_month y (Suc n) = days_before_month y n + days_in_month y n"
    by (intro days_before_month_Suc) simp_all
  moreover have "28 \<le> days_in_month y n"
    using step by (intro days_in_month_pos) simp_all
  ultimately show ?case using step by simp
qed

lemma days_before_month_first: "days_before_month y (Suc 0) = 0"
  by (simp add: days_before_month_def DAYS_BEFORE_MONTH_def)

lemma days_before_month_last:
  "days_before_month y 12 + days_in_month y 12 = 365 + (if is_leap y then 1 else 0)"
  by (simp add: days_before_month_def days_in_month_def DAYS_BEFORE_MONTH_def DAYS_IN_MONTH_def)

lemma ymd2ord_year_range:
  assumes "1 \<le> m" and "m \<le> 12" and "1 \<le> d" and "d \<le> days_in_month y m"
  shows "days_before_year y < ymd2ord y m d" and "ymd2ord y m d \<le> days_before_year (y + 1)"
proof -
  have "0 \<le> days_before_month y m"
    using days_before_month_mono [of 1 m y] assms(1,2) by (simp add: days_before_month_first)
  with assms(3) show "days_before_year y < ymd2ord y m d"
    by (simp add: ymd2ord_def)
  have "days_before_month y m + days_in_month y m \<le> days_before_month y 12 + days_in_month y 12"
  proof (cases "m = 12")
    case True
    then show ?thesis by simp
  next
    case False
    with assms(2) have m11: "m \<le> 11" by simp
    then have "days_before_month y m + days_in_month y m = days_before_month y (Suc m)"
      using assms(1) by (simp add: days_before_month_Suc)
    also have "\<dots> \<le> days_before_month y 12"
      using m11 by (intro days_before_month_mono) simp_all
    also have "\<dots> \<le> days_before_month y 12 + days_in_month y 12"
      using days_in_month_pos [of 12 y] by simp
    finally show ?thesis .
  qed
  with assms(4) show "ymd2ord y m d \<le> days_before_year (y + 1)"
    by (simp add: ymd2ord_def days_before_year_step days_before_month_last)
qed

lemma ymd2ord_inj:
  assumes "1 \<le> m" "m \<le> 12" "1 \<le> d" "d \<le> days_in_month y m"
    and "1 \<le> m'" "m' \<le> 12" "1 \<le> d'" "d' \<le> days_in_month y' m'"
    and "ymd2ord y m d = ymd2ord y' m' d'"
  shows "y = y' \<and> m = m' \<and> d = d'"
proof -
  note r = ymd2ord_year_range [OF assms(1-4)]
  note r' = ymd2ord_year_range [OF assms(5-8)]
  have y: "y = y'"
  proof (rule ccontr)
    assume "y \<noteq> y'"
    then consider "y + 1 \<le> y'" | "y' + 1 \<le> y" by linarith
    then show False
    proof cases
      case 1
      from days_before_year_mono [OF 1] r r' assms(9) show False by simp
    next
      case 2
      from days_before_year_mono [OF 2] r r' assms(9) show False by simp
    qed
  qed
  have eq: "days_before_month y m + d = days_before_month y m' + d'"
    using assms(9) y by (simp add: ymd2ord_def)
  have m: "m = m'"
  proof (rule ccontr)
    assume "m \<noteq> m'"
    then consider "Suc m \<le> m'" | "Suc m' \<le> m" by linarith
    then show False
    proof cases
      case 1
      then have "m \<le> 11" using assms(6) by simp
      then have "days_before_month y m + days_in_month y m = days_before_month y (Suc m)"
        using assms(1) by (simp add: days_before_month_Suc)
      moreover have "days_before_month y (Suc m) \<le> days_before_month y m'"
        using 1 assms(6) by (intro days_before_month_mono) simp_all
      ultimately show False using eq assms(4,7) by simp
    next
      case 2
      then have "m' \<le> 11" using assms(2) by simp
      then have "days_before_month y m' + days_in_month y m' = days_before_month y (Suc m')"
        using assms(5) by (simp add: days_before_month_Suc)
      moreover have "days_before_month y (Suc m') \<le> days_before_month y m"
        using 2 assms(2) by (intro days_before_month_mono) simp_all
      ultimately show False using eq assms(8,3) y by simp
    qed
  qed
  with eq y show ?thesis by simp
qed

lemma minute_number_inj:
  assumes "valid_datetime a" and "valid_datetime b" and "minute_number a = minute_number b"
  shows "a = b"
proof -
  let ?oa = "ymd2ord (int (year a)) (month a) (int (day a))"
  let ?ob = "ymd2ord (int (year b)) (month b) (int (day b))"
  let ?ta = "int (hour a) * 60 + int (minute a)"
  let ?tb = "int (hour b) * 60 + int (minute b)"
  have ta: "0 \<le> ?ta" "?ta < 1440" and tb: "0 \<le> ?tb" "?tb < 1440"
    using assms(1,2) by (simp_all add: valid_datetime_def)
  have eq: "?oa * 1440 + ?ta = ?ob * 1440 + ?tb"
    using assms(3) by (simp add: minute_number_def)
  have "(?oa * 1440 + ?ta) div 1440 = ?oa" "(?ob * 1440 + ?tb) div 1440 = ?ob"
    using ta tb by simp_all
  with eq have o: "?oa = ?ob" by simp
  with eq have t: "?ta = ?tb" by simp
  have ma: "int (minute a) < 60" "int (minute b) < 60"
    using assms(1,2) by (simp_all add: valid_datetime_def)
  have "?ta div 60 = int (hour a)" "?tb div 60 = int (hour b)"
    using ma by simp_all
  with t have h: "hour a = hour b" by simp
  with t have mi: "minute a = minute b" by simp
  have "int (year a) = int (year b) \<and> month a = month b \<and> int (day a) = int (day b)"
    using assms(1,2) o by (intro ymd2ord_inj) (simp_all add: valid_datetime_def)
  with h mi show ?thesis by simp
qed

lemma add_minutes_range:
  "(\<exists>dt'. add_minutes dt n = Inr dt') =
     (1440 \<le> minute_number dt + n \<and> minute_number dt + n < 1440 * 3652060)"
  and add_minutes_overflow:
  "\<not> (1440 \<le> minute_number dt + n \<and> minute_number dt + n < 1440 * 3652060)
     \<Longrightarrow> add_minutes dt n = Inl OverflowError"
proof -
  define total where "total = minute_number dt + n"
  have "total = 1440 * (total div 1440) + total mod 1440" by simp
  moreover have "0 \<le> total mod 1440" "total mod 1440 < 1440" by simp_all
  ultimately have r: "(0 < total div 1440 \<and> total div 1440 \<le> 3652059)
      = (1440 \<le> total \<and> total < 1440 * 3652060)"
    by linarith
  have u: "add_minutes dt n =
      (if 0 < total div 1440 \<and> total div 1440 \<le> 3652059
       then (case ord2ymd (total div 1440) of
               (y, m, d) \<Rightarrow>
                 Inr \<lparr>year = nat y, month = m, day = nat d,
                      hour = nat (total mod 1440 div 60), minute = nat (total mod 1440 mod 60)\<rparr>)
       else Inl OverflowError)"
    by (simp add: add_minutes_def Let_def minute_number_def total_def)
  show "(\<exists>dt'. add_minutes dt n = Inr dt') =
     (1440 \<le> minute_number dt + n \<and> minute_number dt + n < 1440 * 3652060)"
    unfolding u r total_def [symmetric] by (auto split: prod.splits)
  show "add_minutes dt n = Inl OverflowError"
    if "\<not> (1440 \<le> minute_number dt + n \<and> minute_number dt + n < 1440 * 3652060)"
    using that unfolding u r total_def [symmetric] by auto
qed

lemma add_minutes_valid:
  assumes "add_minutes dt n = Inr dt'"
  shows "valid_datetime dt'"
proof -
  note s = add_minutes_sound [OF assms]
  let ?o = "ymd2ord (int (year dt')) (month dt') (int (day dt'))"
  let ?t = "int (hour dt') * 60 + int (minute dt')"
  from assms have "\<exists>d. add_minutes dt n = Inr d" by blast
  then have range: "minute_number dt + n < 1440 * 3652060"
    by (simp add: add_minutes_range)
  have t: "0 \<le> ?t" by simp
  have "?o * 1440 + ?t < 1440 * 3652060"
    using s range by (simp add: minute_number_def)
  with t have o: "?o \<le> 3652059" by linarith
  have "days_before_year (int (year dt')) < ?o"
    using s by (intro ymd2ord_year_range) simp_all
  with o have lt: "days_before_year (int (year dt')) < 3652059" by simp
  have "year dt' \<le> 9999"
  proof (rule ccontr)
    assume "\<not> year dt' \<le> 9999"
    then have "10000 \<le> int (year dt')" by simp
    from days_before_year_mono [OF this] have "3652059 \<le> days_before_year (int (year dt'))"
      by (simp add: days_before_year_def)
    with lt show False by simp
  qed
  with s show ?thesis by (simp add: valid_datetime_def)
qed

lemma two_mem:
  "(n, r) \<in> set (two p q s) \<Longrightarrow> \<exists>a b. s = a # b # r \<and> p a \<and> q b \<and> n = 10 * digit_val a + digit_val b"
  by (auto simp: two_def split: list.splits if_splits)

lemma one_mem:
  "(n, r) \<in> set (one p s) \<Longrightarrow> \<exists>a. s = a # r \<and> p a \<and> n = digit_val a"
  by (auto simp: one_def split: list.splits if_splits)

lemma in_range_digit_val:
  "in_range lo hi c \<Longrightarrow> digit_val lo \<le> digit_val c \<and> digit_val c \<le> digit_val hi"
  by (auto simp: in_range_def digit_val_def)

lemma is_digit_val: "is_digit c \<Longrightarrow> digit_val c \<le> 9"
  by (auto simp: is_digit_def digit_val_def)

lemma digit_val_chars:
  "digit_val CHR ''0'' = 0" "digit_val CHR ''1'' = 1" "digit_val CHR ''2'' = 2"
  "digit_val CHR ''3'' = 3" "digit_val CHR ''5'' = 5" "digit_val CHR ''9'' = 9"
  by (simp_all add: digit_val_def)

lemma rx_Y_mem: "(n, r) \<in> set (rx_Y s) \<Longrightarrow> n \<le> 9999"
proof -
  assume "(n, r) \<in> set (rx_Y s)"
  then obtain a b c d where "is_digit a" "is_digit b" "is_digit c" "is_digit d"
    and n: "n = 1000 * digit_val a + 100 * digit_val b + 10 * digit_val c + digit_val d"
    by (auto simp: rx_Y_def split: list.splits if_splits)
  then have "digit_val a \<le> 9" "digit_val b \<le> 9" "digit_val c \<le> 9" "digit_val d \<le> 9"
    by (simp_all add: is_digit_val)
  with n show ?thesis by linarith
qed

lemma rx_m_mem: "(n, r) \<in> set (rx_m s) \<Longrightarrow> 1 \<le> n \<and> n \<le> 12"
  by (auto simp: rx_m_def digit_val_chars dest!: two_mem one_mem in_range_digit_val)

lemma rx_d_mem: "(n, r) \<in> set (rx_d s) \<Longrightarrow> 1 \<le> n \<and> n \<le> 31"
  by (auto simp: rx_d_def digit_val_chars split: list.splits if_splits
      dest!: two_mem one_mem in_range_digit_val is_digit_val)

lemma rx_H_mem: "(n, r) \<in> set (rx_H s) \<Longrightarrow> n \<le> 23"
  by (auto simp: rx_H_def digit_val_chars dest!: two_mem one_mem in_range_digit_val is_digit_val)

lemma rx_M_mem: "(n, r) \<in> set (rx_M s) \<Longrightarrow> n \<le> 59"
  by (auto simp: rx_M_def digit_val_chars dest!: two_mem one_mem in_range_digit_val is_digit_val)

lemma matches_mem:
  assumes "((y, m, d, h, mi), r) \<in> set (matches_YmdHM s)"
  shows "y \<le> 9999 \<and> 1 \<le> m \<and> m \<le> 12 \<and> 1 \<le> d \<and> d \<le> 31 \<and> h \<le> 23 \<and> mi \<le> 59"
proof -
  from assms obtain r1 r2 r3 r4 where
    "(y, r1) \<in> set (rx_Y s)" "(m, r2) \<in> set (rx_m r1)" "(d, r3) \<in> set (rx_d r2)"
    "(h, r4) \<in> set (rx_H r3)" "(mi, r) \<in> set (rx_M r4)"
    by (auto simp: matches_YmdHM_def)
  then show ?thesis
    using rx_Y_mem rx_m_mem rx_d_mem rx_H_mem rx_M_mem by blast
qed

lemma strptime_valid:
  assumes "strptime_YmdHM s = Inr dt"
  shows "valid_datetime dt"
proof -
  from assms obtain y m d h mi rest tl where
    ms: "matches_YmdHM s = ((y, m, d, h, mi), rest) # tl"
    by (auto simp: strptime_YmdHM_def split: list.splits)
  with assms have dt: "dt = \<lparr>year = y, month = m, day = d, hour = h, minute = mi\<rparr>"
    and chk: "1 \<le> y" "int d \<le> days_in_month (int y) m"
    by (auto simp: strptime_YmdHM_def split: if_splits)
  from ms have "((y, m, d, h, mi), rest) \<in> set (matches_YmdHM s)" by simp
  from matches_mem [OF this] chk show ?thesis
    by (simp add: valid_datetime_def dt)
qed

text \<open>
  Claim C6. Let a message carry the integers \<open>d\<close>, \<open>t\<close> and \<open>e\<close> as \<open>dataDate\<close>,
  \<open>dataTime\<close> and \<open>endStep\<close>. The simulation time is what the format
  \<^verbatim>\<open>%Y%m%d%H%M\<close> reads from the decimal text of \<open>d\<close> followed by the decimal text of
  \<open>t\<close> filled with zeros to four places, and the validity time is the simulation time
  plus \<open>e\<close> minutes. When \<open>d\<close> is an eight-digit date \<open>y m dd\<close> of the calendar and
  \<open>t\<close> is a time \<open>h mi\<close> of the day, the simulation time is that date at that time; a
  simulation time, whenever there is one, is a date of the calendar with a time of the day.
  When the simulation time plus \<open>e\<close> minutes stays within the years 1 to 9999, the
  validity time is the one date and time of the calendar that lies exactly \<open>e\<close> minutes
  after the simulation time on the time line: it has this minute number, its fields are in
  range, and no other date and time in range has this minute number. Outside the years 1
  to 9999 the sum raises \<^verbatim>\<open>OverflowError\<close>, and a failure of the simulation time is the
  failure of the validity time. For \<open>d = 20170104\<close>, \<open>t = 600\<close> and \<open>e = 180\<close> the
  simulation time is 2017-01-04 06:00 and the validity time is 2017-01-04 09:00.
\<close>

theorem temporal_resolver:
  assumes "getitem grb ''dataDate'' = Inr (IntV d)"
    and "getitem grb ''dataTime'' = Inr (IntV t)"
    and "getitem grb ''endStep'' = Inr (IntV e)"
  shows "get_grib_layer_simulation_datetime grb = strptime_YmdHM (show_int d @ zfill 4 (show_int t))
    \<and> get_grib_layer_validity_datetime grb =
        (case get_grib_layer_simulation_datetime grb of
           Inl err \<Rightarrow> Inl err
         | Inr sim \<Rightarrow> add_minutes sim e)
    \<and> (\<forall>y m dd h mi.
          d = int (y * 10000 + m * 100 + dd) \<and> t = int (h * 100 + mi)
          \<and> 1000 \<le> y \<and> y < 10000 \<and> 1 \<le> m \<and> m \<le> 12
          \<and> 1 \<le> dd \<and> int dd \<le> days_in_month (int y) m \<and> h \<le> 23 \<and> mi \<le> 59
          \<longrightarrow> get_grib_layer_simulation_datetime grb =
                Inr \<lparr>year = y, month = m, day = dd, hour = h, minute = mi\<rparr>)
    \<and> (\<forall>sim. get_grib_layer_simulation_datetime grb = Inr sim \<longrightarrow> valid_datetime sim)
    \<and> (\<forall>sim.
          get_grib_layer_simulation_datetime grb = Inr sim
          \<and> 1440 \<le> minute_number sim + e \<and> minute_number sim + e < 1440 * 3652060
          \<longrightarrow> (\<exists>val. get_grib_layer_validity_datetime grb = Inr val
                     \<and> valid_datetime val
                     \<and> minute_number val = minute_number sim + e
                     \<and> (\<forall>dt. valid_datetime dt \<and> minute_number dt = minute_number sim + e
                            \<longrightarrow> dt = val)))
    \<and> (\<forall>sim.
          get_grib_layer_simulation_datetime grb = Inr sim
          \<and> \<not> (1440 \<le> minute_number sim + e \<and> minute_number sim + e < 1440 * 3652060)
          \<longrightarrow> get_grib_layer_validity_datetime grb = Inl OverflowError)
    \<and> (\<forall>err. get_grib_layer_simulation_datetime grb = Inl err
          \<longrightarrow> get_grib_layer_validity_datetime grb = Inl err)
    \<and> (d = 20170104 \<and> t = 600 \<and> e = 180
          \<longrightarrow> get_grib_layer_simulation_datetime grb =
                Inr \<lparr>year = 2017, month = 1, day = 4, hour = 6, minute = 0\<rparr>
            \<and> get_grib_layer_validity_datetime grb =
                Inr \<lparr>year = 2017, month = 1, day = 4, hour = 9, minute = 0\<rparr>)"
proof -
  have sim: "get_grib_layer_simulation_datetime grb =
      strptime_YmdHM (show_int d @ zfill 4 (show_int t))"
    using assms(1,2) by (simp add: get_grib_layer_simulation_datetime_def)
  have val: "get_grib_layer_validity_datetime grb =
        (case get_grib_layer_simulation_datetime grb of
           Inl err \<Rightarrow> Inl err
         | Inr sim \<Rightarrow> add_minutes sim e)"
    using assms(3) by (simp add: get_grib_layer_validity_datetime_def split: sum.splits)
  have fields: "get_grib_layer_simulation_datetime grb =
                Inr \<lparr>year = y, month = m, day = dd, hour = h, minute = mi\<rparr>"
    if "d = int (y * 10000 + m * 100 + dd)" "t = int (h * 100 + mi)"
      "1000 \<le> y" "y < 10000" "1 \<le> m" "m \<le> 12"
      "1 \<le> dd" "int dd \<le> days_in_month (int y) m" "h \<le> 23" "mi \<le> 59"
    for y m dd h mi
    using assms(1,2) that by (intro simulation_datetime_of_fields) simp_all
  have valid: "valid_datetime s" if "get_grib_layer_simulation_datetime grb = Inr s" for s
    using that sim by (intro strptime_valid [of "show_int d @ zfill 4 (show_int t)"]) simp
  have plus: "\<exists>v. get_grib_layer_validity_datetime grb = Inr v
                     \<and> valid_datetime v
                     \<and> minute_number v = minute_number s + e
                     \<and> (\<forall>dt. valid_datetime dt \<and> minute_number dt = minute_number s + e
                            \<longrightarrow> dt = v)"
    if "get_grib_layer_simulation_datetime grb = Inr s"
      "1440 \<le> minute_number s + e" "minute_number s + e < 1440 * 3652060"
    for s
  proof -
    from add_minutes_total [OF that(2,3)] obtain v where v: "add_minutes s e = Inr v"
      by blast
    with val that(1) have 1: "get_grib_layer_validity_datetime grb = Inr v" by simp
    have 2: "valid_datetime v" using v by (rule add_minutes_valid)
    have 3: "minute_number v = minute_number s + e"
      using add_minutes_sound [OF v] by simp
    have 4: "dt = v" if "valid_datetime dt" "minute_number dt = minute_number s + e" for dt
      using that 2 3 by (intro minute_number_inj) simp_all
    from 1 2 3 4 show ?thesis by blast
  qed
  have over: "get_grib_layer_validity_datetime grb = Inl OverflowError"
    if "get_grib_layer_simulation_datetime grb = Inr s"
      "\<not> (1440 \<le> minute_number s + e \<and> minute_number s + e < 1440 * 3652060)"
    for s
    using val that(1) add_minutes_overflow [OF that(2)] by simp
  have err: "get_grib_layer_validity_datetime grb = Inl x"
    if "get_grib_layer_simulation_datetime grb = Inl x" for x
    using val that by simp
  have ex: "get_grib_layer_simulation_datetime grb =
                Inr \<lparr>year = 2017, month = 1, day = 4, hour = 6, minute = 0\<rparr>
            \<and> get_grib_layer_validity_datetime grb =
                Inr \<lparr>year = 2017, month = 1, day = 4, hour = 9, minute = 0\<rparr>"
    if "d = 20170104" "t = 600" "e = 180"
  proof -
    have s: "get_grib_layer_simulation_datetime grb =
                Inr \<lparr>year = 2017, month = 1, day = 4, hour = 6, minute = 0\<rparr>"
      using sim that(1,2) by (simp only: example_simulation_string)
    have "get_grib_layer_validity_datetime grb =
                Inr \<lparr>year = 2017, month = 1, day = 4, hour = 9, minute = 0\<rparr>"
      using val that(3) by (simp only: s sum.case example_validity)
    with s show ?thesis by (rule conjI)
  qed
  have c3: "\<forall>y m dd h mi.
          d = int (y * 10000 + m * 100 + dd) \<and> t = int (h * 100 + mi)
          \<and> 1000 \<le> y \<and> y < 10000 \<and> 1 \<le> m \<and> m \<le> 12
          \<and> 1 \<le> dd \<and> int dd \<le> days_in_month (int y) m \<and> h \<le> 23 \<and> mi \<le> 59
          \<longrightarrow> get_grib_layer_simulation_datetime grb =
                Inr \<lparr>year = y, month = m, day = dd, hour = h, minute = mi\<rparr>"
    using fields by blast
  have c4: "\<forall>sim. get_grib_layer_simulation_datetime grb = Inr sim \<longrightarrow> valid_datetime sim"
    using valid by blast
  have c5: "\<forall>sim.
          get_grib_layer_simulation_datetime grb = Inr sim
          \<and> 1440 \<le> minute_number sim + e \<and> minute_number sim + e < 1440 * 3652060
          \<longrightarrow> (\<exists>val. get_grib_layer_validity_datetime grb = Inr val
                     \<and> valid_datetime val
                     \<and> minute_number val = minute_number sim + e
                     \<and> (\<forall>dt. valid_datetime dt \<and> minute_number dt = minute_number sim + e
                            \<longrightarrow> dt = val))"
  proof (intro allI impI)
    fix s
    assume "get_grib_layer_simulation_datetime grb = Inr s
          \<and> 1440 \<le> minute_number s + e \<and> minute_number s + e < 1440 * 3652060"
    then show "\<exists>val. get_grib_layer_validity_datetime grb = Inr val
                     \<and> valid_datetime val
                     \<and> minute_number val = minute_number s + e
                     \<and> (\<forall>dt. valid_datetime dt \<and> minute_number dt = minute_number s + e
                            \<longrightarrow> dt = val)"
      by (intro plus) simp_all
  qed
  have c6: "\<forall>sim.
          get_grib_layer_simulation_datetime grb = Inr sim
          \<and> \<not> (1440 \<le> minute_number sim + e \<and> minute_number sim + e < 1440 * 3652060)
          \<longrightarrow> get_grib_layer_validity_datetime grb = Inl OverflowError"
    using over by blast
  have c7: "\<forall>err. get_grib_layer_simulation_datetime grb = Inl err
          \<longrightarrow> get_grib_layer_validity_datetime grb = Inl err"
    using err by blast
  have c8: "d = 20170104 \<and> t = 600 \<and> e = 180
          \<longrightarrow> get_grib_layer_simulation_datetime grb =
                Inr \<lparr>year = 2017, month = 1, day = 4, hour = 6, minute = 0\<rparr>
            \<and> get_grib_layer_validity_datetime grb =
                Inr \<lparr>year = 2017, month = 1, day = 4, hour = 9, minute = 0\<rparr>"
    using ex by blast
  from sim val c3 c4 c5 c6 c7 c8 show ?thesis
    by (intro conjI)
qed

theorem temporal_resolver_witness:
  "getitem layer_0600 ''dataDate'' = Inr (IntV 20170104)
   \<and> getitem layer_0600 ''dataTime'' = Inr (IntV 600)
   \<and> getitem layer_0600 ''endStep'' = Inr (IntV 180)
   \<and> get_grib_layer_simulation_datetime layer_0600 =
        Inr \<lparr>year = 2017, month = 1, day = 4, hour = 6, minute = 0\<rparr>
   \<and> get_grib_layer_validity_datetime layer_0600 =
        Inr \<lparr>year = 2017, month = 1, day = 4, hour = 9, minute = 0\<rparr>
   \<and> getitem layer_2300 ''dataDate'' = Inr (IntV 20161231)
   \<and> getitem layer_2300 ''dataTime'' = Inr (IntV 2300)
   \<and> getitem layer_2300 ''endStep'' = Inr (IntV 120)
   \<and> get_grib_layer_simulation_datetime layer_2300 =
        Inr \<lparr>year = 2016, month = 12, day = 31, hour = 23, minute = 0\<rparr>
   \<and> minute_number \<lparr>year = 2016, month = 12, day = 31, hour = 23, minute = 0\<rparr> = 1060315140
   \<and> valid_datetime \<lparr>year = 2017, month = 1, day = 1, hour = 1, minute = 0\<rparr>
   \<and> minute_number \<lparr>year = 2017, month = 1, day = 1, hour = 1, minute = 0\<rparr> = 1060315140 + 120
   \<and> get_grib_layer_validity_datetime layer_2300 =
        Inr \<lparr>year = 2017, month = 1, day = 1, hour = 1, minute = 0\<rparr>"
proof -
  let ?sim = "\<lparr>year = 2016, month = 12, day = 31, hour = 23, minute = 0\<rparr>"
  let ?val = "\<lparr>year = 2017, month = 1, day = 1, hour = 1, minute = 0\<rparr>"
  have h1: "getitem layer_0600 ''dataDate'' = Inr (IntV 20170104)"
    by (simp add: getitem_def layer_0600_def)
  have h2: "getitem layer_0600 ''dataTime'' = Inr (IntV 600)"
    by (simp add: getitem_def layer_0600_def)
  have h3: "getitem layer_0600 ''endStep'' = Inr (IntV 180)"
    by (simp add: getitem_def layer_0600_def)
  note t = temporal_resolver [OF h1 h2 h3]
  have ex: "get_grib_layer_simulation_datetime layer_0600 =
        Inr \<lparr>year = 2017, month = 1, day = 4, hour = 6, minute = 0\<rparr>
     \<and> get_grib_layer_validity_datetime layer_0600 =
        Inr \<lparr>year = 2017, month = 1, day = 4, hour = 9, minute = 0\<rparr>"
    by (rule t [THEN conjunct2, THEN conjunct2, THEN conjunct2, THEN conjunct2, THEN conjunct2,
                THEN conjunct2, THEN conjunct2, THEN mp]) simp
  have g1: "getitem layer_2300 ''dataDate'' = Inr (IntV 20161231)"
    by (simp add: getitem_def layer_2300_def)
  have g2: "getitem layer_2300 ''dataTime'' = Inr (IntV 2300)"
    by (simp add: getitem_def layer_2300_def)
  have g3: "getitem layer_2300 ''endStep'' = Inr (IntV 120)"
    by (simp add: getitem_def layer_2300_def)
  note u = temporal_resolver [OF g1 g2 g3]
  have sim: "get_grib_layer_simulation_datetime layer_2300 = Inr ?sim"
    by (rule u [THEN conjunct2, THEN conjunct2, THEN conjunct1, rule_format, of 2016 12 31 23 0])
       (simp add: days_in_month_def DAYS_IN_MONTH_def)
  have mn: "minute_number ?sim = 1060315140"
    by (simp add: minute_number_def ymd2ord_def days_before_year_def days_before_month_def
        DAYS_BEFORE_MONTH_def is_leap_def)
  have v: "valid_datetime ?val"
    by (simp add: valid_datetime_def days_in_month_def DAYS_IN_MONTH_def)
  have mv: "minute_number ?val = 1060315140 + 120"
    by (simp add: minute_number_def ymd2ord_def days_before_year_def days_before_month_def
        DAYS_BEFORE_MONTH_def is_leap_def)
  have "\<exists>val. get_grib_layer_validity_datetime layer_2300 = Inr val
                     \<and> valid_datetime val
                     \<and> minute_number val = minute_number ?sim + 120
                     \<and> (\<forall>dt. valid_datetime dt \<and> minute_number dt = minute_number ?sim + 120
                            \<longrightarrow> dt = val)"
    by (rule u [THEN conjunct2, THEN conjunct2, THEN conjunct2, THEN conjunct2, THEN conjunct1,
                rule_format, of ?sim])
       (simp add: sim mn)
  then obtain val where val: "get_grib_layer_validity_datetime layer_2300 = Inr val"
    and uniq: "\<forall>dt. valid_datetime dt \<and> minute_number dt = minute_number ?sim + 120 \<longrightarrow> dt = val"
    by blast
  from uniq v mv mn have "?val = val" by simp
  with val have res: "get_grib_layer_validity_datetime layer_2300 = Inr ?val" by simp
  show ?thesis
    by (intro conjI h1 h2 h3 ex [THEN conjunct1] ex [THEN conjunct2] g1 g2 g3 sim mn v mv res)
qed

end
